theory Spec2Isabelle
  imports Complex_Main "HOL-Library.Sublist" "HOL-Library.Multiset"
begin

section \<open>Text utilities (utils/text.py)\<close>

text \<open>
  A Python \<open>str\<close> is modelled as a \<^typ>\<open>string\<close>; every \<^typ>\<open>char\<close> stands for one
  code point below 256, so \<^const>\<open>length\<close> counts code points as Python's \<open>len\<close> does.
  \<open>ord\<close> reads the code point.
\<close>

definition ord :: "char \<Rightarrow> nat" where
  "ord c = of_char c"

text \<open>\<open>str.lower\<close> on code points below 256: A-Z and the Latin-1 capitals move up by 32.\<close>

definition lower_char :: "char \<Rightarrow> char" where
  "lower_char c =
     (if (65 \<le> ord c \<and> ord c \<le> 90) \<or> (192 \<le> ord c \<and> ord c \<le> 214) \<or> (216 \<le> ord c \<and> ord c \<le> 222)
      then char_of (ord c + 32) else c)"

definition lower :: "string \<Rightarrow> string" where
  "lower s = map lower_char s"

text \<open>
  The white space of \<open>\s\<close> and of \<open>str.strip\<close> (both ask \<open>Py_UNICODE_ISSPACE\<close>):
  tab to carriage return, the four separators 28 to 31, space, NEL and the no-break space.
\<close>

definition is_space :: "char \<Rightarrow> bool" where
  "is_space c = ((9 \<le> ord c \<and> ord c \<le> 13) \<or> (28 \<le> ord c \<and> ord c \<le> 32) \<or> ord c = 133 \<or> ord c = 160)"

text \<open>The characters the class \<open>[a-z0-9]\<close> accepts.\<close>

definition is_lc_alnum :: "char \<Rightarrow> bool" where
  "is_lc_alnum c = ((97 \<le> ord c \<and> ord c \<le> 122) \<or> (48 \<le> ord c \<and> ord c \<le> 57))"

text \<open>\<open>_PUNCT_RE.sub(" ", text)\<close>: every character outside \<open>[a-z0-9\s]\<close> becomes a space.\<close>

definition punct_sub :: "string \<Rightarrow> string" where
  "punct_sub s = map (\<lambda>c. if is_lc_alnum c \<or> is_space c then c else CHR '' '') s"

text \<open>\<open>_WS_RE.sub(" ", text)\<close>: every maximal run of white space becomes one space.\<close>

function ws_sub :: "string \<Rightarrow> string" where
  "ws_sub [] = []"
| "ws_sub (c # cs) =
     (if is_space c then CHR '' '' # ws_sub (dropWhile is_space cs) else c # ws_sub cs)"
  by pat_completeness auto
termination
  by (relation "measure length") (auto simp: less_Suc_eq_le length_dropWhile_le)

text \<open>\<open>str.strip()\<close>: white space removed at both ends.\<close>

definition strip :: "string \<Rightarrow> string" where
  "strip s = rev (dropWhile is_space (rev (dropWhile is_space s)))"

definition normalize_title :: "string \<Rightarrow> string" where
  "normalize_title text = strip (ws_sub (punct_sub (lower text)))"

text \<open>\<open>str.split(" ")\<close>: the pieces between single spaces, empty pieces included.\<close>

fun split_sp :: "string \<Rightarrow> string list" where
  "split_sp [] = [[]]"
| "split_sp (c # cs) =
     (if c = CHR '' '' then [] # split_sp cs
      else (case split_sp cs of [] \<Rightarrow> [[c]] | w # ws \<Rightarrow> (c # w) # ws))"

definition tokenize :: "string \<Rightarrow> string set" where
  "tokenize text = set (filter (\<lambda>t. t \<noteq> []) (split_sp (normalize_title text)))"

text \<open>
  \<open>jaccard_similarity\<close>. Python divides two small integers in double precision and the
  caller compares the quotient with the literal \<open>0.9\<close>; both are the correctly rounded value
  of a rational, so the comparison agrees with the exact one (for unions below \<open>2^49\<close>
  tokens), and the quotient is kept exact here.
\<close>

definition jaccard_similarity :: "string set \<Rightarrow> string set \<Rightarrow> real" where
  "jaccard_similarity a b =
     (if a = {} \<and> b = {} then 1
      else if a = {} \<or> b = {} then 0
      else real (card (a \<inter> b)) / real (card (a \<union> b)))"

section \<open>Data model (schemas.py)\<close>

record paper =
  source :: string
  paper_id :: "string option"
  title :: string
  abstract :: string
  authors :: "string list"
  year :: "int option"
  url :: string
  pdf_url :: "string option"
  doi :: "string option"
  venue :: "string option"

text \<open>The fields of \<open>Citation\<close> carry the prefix \<open>c_\<close>, those of the request \<open>req_\<close>.\<close>

record citation =
  c_index :: int
  c_title :: string
  c_authors :: "string list"
  c_year :: "int option"
  c_doi :: "string option"
  c_url :: string
  c_source :: string

record research_request =
  req_query :: string
  req_top_k :: "int option"
  req_provider :: "string option"

record research_response =
  query :: string
  report_markdown :: string
  citations :: "citation list"
  num_sources :: int
  selected :: "paper list"

section \<open>Python idioms\<close>

text \<open>Truthiness of an \<open>Optional[str]\<close>: \<open>None\<close> and the empty string are both false.\<close>

definition str_or :: "string option \<Rightarrow> string \<Rightarrow> string" where
  "str_or x dflt = (case x of None \<Rightarrow> dflt | Some s \<Rightarrow> if s = [] then dflt else s)"

text \<open>The slice \<open>xs[:k]\<close>; a negative \<open>k\<close> counts from the end.\<close>

definition slice_to :: "int \<Rightarrow> 'a list \<Rightarrow> 'a list" where
  "slice_to k xs = (if 0 \<le> k then take (nat k) xs else take (nat (int (length xs) + k)) xs)"

text \<open>\<open>sep.join(parts)\<close>.\<close>

fun join :: "string \<Rightarrow> string list \<Rightarrow> string" where
  "join sep [] = []"
| "join sep [x] = x"
| "join sep (x # y # ys) = x @ sep @ join sep (y # ys)"

text \<open>\<open>str(n)\<close> for an integer.\<close>

definition digit :: "nat \<Rightarrow> char" where
  "digit d = char_of (48 + d)"

fun str_nat :: "nat \<Rightarrow> string" where
  "str_nat n = (if n < 10 then [digit n] else str_nat (n div 10) @ [digit (n mod 10)])"

declare str_nat.simps [simp del]

definition str_int :: "int \<Rightarrow> string" where
  "str_int i = (if i < 0 then CHR ''-'' # str_nat (nat (- i)) else str_nat (nat i))"

definition nl :: string where
  "nl = [CHR 0x0A]"

text \<open>
  The em dash of the reference lines (U+2014) is the one character of the source above
  255; it is written as the three bytes of its UTF-8 encoding.
\<close>

definition em_dash :: string where
  "em_dash = [CHR 0xE2, CHR 0x80, CHR 0x94]"

text \<open>
  An insertion-ordered \<open>dict\<close> as an association list: assigning to a key that is present
  keeps its position, a new key goes to the end.
\<close>

fun dict_set :: "('k \<times> 'v) list \<Rightarrow> 'k \<Rightarrow> 'v \<Rightarrow> ('k \<times> 'v) list" where
  "dict_set [] k v = [(k, v)]"
| "dict_set ((k', v') # kvs) k v =
     (if k' = k then (k, v) # kvs else (k', v') # dict_set kvs k v)"

section \<open>The research pipeline (research.py)\<close>

subsection \<open>deduplicate_papers\<close>

definition doi_key :: "string \<Rightarrow> string" where
  "doi_key d = strip (lower d)"

text \<open>
  One round of the first loop. The state is \<open>(seen_by_doi, without_doi)\<close>; \<open>if p.doi\<close>
  is false for \<open>None\<close> and for the empty string.
\<close>

definition doi_step :: "(string \<times> paper) list \<times> paper list \<Rightarrow> paper \<Rightarrow> (string \<times> paper) list \<times> paper list" where
  "doi_step st p =
     (case st of (seen_by_doi, without_doi) \<Rightarrow>
        if str_or (doi p) [] \<noteq> [] then
          (let key = doi_key (str_or (doi p) []) in
             case map_of seen_by_doi key of
               None \<Rightarrow> (dict_set seen_by_doi key p, without_doi)
             | Some existing \<Rightarrow>
                 if length (abstract p) > length (abstract existing)
                 then (dict_set seen_by_doi key p, without_doi)
                 else (seen_by_doi, without_doi))
        else (seen_by_doi, without_doi @ [p]))"

definition doi_loop :: "paper list \<Rightarrow> (string \<times> paper) list \<times> paper list" where
  "doi_loop papers = foldl doi_step ([], []) papers"

text \<open>
  The second loop: \<open>prev\<close> is \<open>title_tokens[:i]\<close>, the entries before the current one,
  and \<open>kept\<close> the list under construction.
\<close>

definition is_dup :: "(paper \<times> string set) list \<Rightarrow> string set \<Rightarrow> bool" where
  "is_dup prev toks = list_ex (\<lambda>(q, qtoks). jaccard_similarity toks qtoks \<ge> 0.9) prev"

fun title_loop :: "(paper \<times> string set) list \<Rightarrow> (paper \<times> string set) list \<Rightarrow> paper list \<Rightarrow> paper list" where
  "title_loop prev [] kept = kept"
| "title_loop prev ((p, toks) # rest) kept =
     title_loop (prev @ [(p, toks)]) rest (if is_dup prev toks then kept else kept @ [p])"

definition deduplicate_papers :: "paper list \<Rightarrow> paper list" where
  "deduplicate_papers papers =
     (case doi_loop papers of (seen_by_doi, without_doi) \<Rightarrow>
        title_loop [] (map (\<lambda>p. (p, tokenize (title p))) without_doi) (map snd seen_by_doi))"

subsection \<open>score_paper and rank_and_select\<close>

text \<open>
  \<open>x or dflt\<close> on an \<open>Optional[int]\<close>, as in \<open>paper.year or 1990\<close> and
  \<open>top_k or settings.top_k_synthesis\<close>, takes the default for \<open>None\<close> and for 0.
\<close>

definition int_or :: "int option \<Rightarrow> int \<Rightarrow> int" where
  "int_or x dflt = (case x of None \<Rightarrow> dflt | Some v \<Rightarrow> if v = 0 then dflt else v)"

text \<open>
  The score is a Python float. \<open>fl\<close> rounds a real number to the nearest one with a
  significand of 53 bits, ties to even: the result of one operation on doubles, without the
  bounds of the exponent (no overflow, no subnormal numbers; the scores stay far inside).
  \<open>math.exp\<close> is taken as the correctly rounded exponential.
\<close>

definition round_even :: "real \<Rightarrow> int" where
  "round_even r =
     (let f = \<lfloor>r\<rfloor> in
      if r - of_int f < 1 / 2 then f
      else if r - of_int f > 1 / 2 then f + 1
      else if even f then f else f + 1)"

definition fl :: "real \<Rightarrow> real" where
  "fl x =
     (if x = 0 then 0
      else (let e = \<lfloor>log 2 \<bar>x\<bar>\<rfloor>; u = 2 powr (of_int e - 52)
            in of_int (round_even (x / u)) * u))"

text \<open>The locals \<open>relevance\<close> and \<open>max(min(year, 2030), 1990)\<close> of \<open>score_paper\<close>.\<close>

definition relevance :: "string \<Rightarrow> paper \<Rightarrow> nat" where
  "relevance q paper =
     (let q_tokens = tokenize q;
          tokens_title = tokenize (title paper);
          tokens_abs = tokenize (abstract paper);
          match_title = card (q_tokens \<inter> tokens_title);
          match_abs = card (q_tokens \<inter> tokens_abs)
      in match_title * 2 + match_abs * 1)"

definition year_eff :: "paper \<Rightarrow> int" where
  "year_eff paper = (let yr = int_or (year paper) 1990 in max (min yr 2030) 1990)"

text \<open>
  The arithmetic of \<open>score_paper\<close> with the rounding \<open>rnd\<close> applied to the result of
  every operation and to the literal \<open>0.3\<close>; 1, 0.75 and 0.25 are doubles. The code is
  the instance \<open>fl\<close>.
\<close>

definition score_paper_with :: "(real \<Rightarrow> real) \<Rightarrow> string \<Rightarrow> paper \<Rightarrow> real" where
  "score_paper_with rnd q paper =
     (let recency = rnd (real_of_int (year_eff paper - 1990) / real_of_int (2030 - 1990));
          norm_rel = rnd (1 - rnd (exp (rnd (- rnd 0.3 * real (relevance q paper)))))
      in rnd (rnd (0.75 * norm_rel) + rnd (0.25 * recency)))"

definition score_paper :: "string \<Rightarrow> paper \<Rightarrow> real" where
  "score_paper q paper = score_paper_with fl q paper"

text \<open>
  \<open>scored.sort(key=..., reverse=True)\<close> is the stable sort by descending key: equal keys
  keep their order.
\<close>

definition sort_desc :: "(real \<times> 'a) list \<Rightarrow> (real \<times> 'a) list" where
  "sort_desc scored = sort_key (\<lambda>x. - fst x) scored"

definition rank_and_select :: "string \<Rightarrow> paper list \<Rightarrow> int \<Rightarrow> paper list" where
  "rank_and_select q papers top_k =
     (let scored = map (\<lambda>p. (score_paper q p, p)) papers
      in map snd (slice_to top_k (sort_desc scored)))"

subsection \<open>build_citations\<close>

definition cite :: "nat \<Rightarrow> paper \<Rightarrow> citation" where
  "cite idx p =
     \<lparr> c_index = int idx, c_title = title p, c_authors = authors p, c_year = year p,
       c_doi = doi p, c_url = (if url p \<noteq> [] then url p else str_or (pdf_url p) []),
       c_source = source p \<rparr>"

definition build_citations :: "paper list \<Rightarrow> citation list" where
  "build_citations sel = map (\<lambda>(idx, p). cite idx p) (enumerate 1 sel)"

subsection \<open>Report lines\<close>

definition authors_text :: "string list \<Rightarrow> string" where
  "authors_text as = (if as \<noteq> [] then join '', '' as else ''Unknown'')"

definition year_text :: "int option \<Rightarrow> string" where
  "year_text y = (case y of None \<Rightarrow> ''n.d.'' | Some v \<Rightarrow> if v = 0 then ''n.d.'' else str_int v)"

text \<open>The line \<open>[{index}] {title} - {authors} ({year}); DOI: {doi}; URL: {url}\<close>.\<close>

definition reference_line :: "citation \<Rightarrow> string" where
  "reference_line c =
     ''['' @ str_int (c_index c) @ ''] '' @ c_title c @ '' '' @ em_dash @ '' '' @
     authors_text (c_authors c) @ '' ('' @ year_text (c_year c) @ ''); DOI: '' @
     str_or (c_doi c) ''n/a'' @ ''; URL: '' @ c_url c"

record chat_message =
  role :: string
  content :: string

definition build_synthesis_messages :: "string \<Rightarrow> citation list \<Rightarrow> chat_message list" where
  "build_synthesis_messages q cits =
     (let records_block = join nl (map reference_line cits);
          instructions =
            ''You are Research Scholar Agent, an expert academic writer. '' @
            ''Write a rigorous, concise, and well-structured report that synthesizes findings across disciplines. '' @
            ''Use inline numeric citations like [1], [2] whenever you state a claim or refer to a paper. '' @
            ''Only cite from the provided sources. Do not invent citations. If evidence is limited, state that explicitly. '' @
            ''Prefer recent and high-quality sources.'';
          outline =
            ''Required sections: 1) Executive Summary; 2) Background & Related Work; 3) Methods (if applicable); '' @
            ''4) Key Findings & Themes; 5) Cross-Disciplinary Insights; 6) Limitations & Risks; 7) Open Questions; 8) Future Directions; 9) References. '' @
            ''In References, list each source with its numeric index and full metadata.'';
          system = \<lparr> role = ''system'',
                     content = ''You are a careful research assistant. Follow instructions exactly. '' @
                               ''Do not fabricate citations. Keep the tone formal and academic.'' \<rparr>;
          user = \<lparr> role = ''user'',
                   content = ''Research question: '' @ q @ nl @ nl @
                             ''Sources:'' @ nl @ records_block @ nl @ nl @
                             instructions @ nl @ outline @ nl @
                             ''Write 800-1200 words.'' \<rparr>
      in [system, user])"

subsection \<open>synthesize_fallback\<close>

text \<open>\<open>snippet = (p.abstract or p.title).strip()\<close>\<close>

definition snippet :: "paper \<Rightarrow> string" where
  "snippet p = strip (if abstract p \<noteq> [] then abstract p else title p)"

definition background_bullet :: "nat \<Rightarrow> paper \<Rightarrow> string" where
  "background_bullet idx p =
     ''- '' @ title p @ '' ['' @ str_int (int idx) @ '']: '' @ take 600 (snippet p) @
     (if length (snippet p) > 600 then ''...'' else [])  @ nl"

definition background_bullets :: "paper list \<Rightarrow> string list" where
  "background_bullets sel =
     map (\<lambda>(idx, p). background_bullet idx p) (enumerate 1 (take (max 3 (length sel div 3)) sel))"

definition finding_bullet :: "nat \<Rightarrow> string" where
  "finding_bullet idx =
     ''- Finding linked to ['' @ str_int (int idx) @ ''] derived from its abstract and title.'' @ nl"

definition finding_bullets :: "paper list \<Rightarrow> string list" where
  "finding_bullets sel = map (\<lambda>(idx, p). finding_bullet idx) (enumerate 1 (take 5 sel))"

definition fallback_lines :: "string \<Rightarrow> paper list \<Rightarrow> string list" where
  "fallback_lines q sel =
     (let cits = build_citations sel in
      [''# '' @ q @ nl,
       ''## Executive Summary'' @ nl,
       (if sel \<noteq> [] then
          ''This report summarizes key findings from the most relevant recent publications on the topic. '' @
          ''It integrates evidence across sources and highlights areas of consensus and uncertainty.'' @ nl
        else ''No sources were retrieved. The summary below is limited.'' @ nl),
       ''## Background & Related Work'' @ nl]
      @ background_bullets sel
      @ [''## Key Findings & Themes'' @ nl]
      @ finding_bullets sel
      @ [''## Limitations & Risks'' @ nl,
         ''- This non-LLM fallback uses abstracts and may miss methodological nuance.'' @ nl,
         ''## References'' @ nl]
      @ map (\<lambda>c. reference_line c @ nl) cits)"

definition synthesize_fallback :: "string \<Rightarrow> paper list \<Rightarrow> string" where
  "synthesize_fallback q sel = join nl (fallback_lines q sel)"

section \<open>Configuration and providers (config.py, llm/providers.py)\<close>

record app_settings =
  default_llm_provider :: "string option"
  openai_api_key :: "string option"
  together_api_key :: "string option"
  ollama_base_url :: string
  crossref_mailto :: string
  max_results_per_source :: int
  top_k_synthesis :: int

text \<open>\<open>AppSettings()\<close> when the environment sets nothing.\<close>

definition default_settings :: app_settings where
  "default_settings =
     \<lparr> default_llm_provider = None, openai_api_key = None, together_api_key = None,
       ollama_base_url = ''http://localhost:11434'', crossref_mailto = ''your-email@example.com'',
       max_results_per_source = 25, top_k_synthesis = 10 \<rparr>"

datatype error = RuntimeError string | HTTPError string | ValidationError string | TypeError string

text \<open>A provider object: its kind and the attributes its constructor stores.\<close>

datatype llm_provider =
    OpenAIProvider string string
  | TogetherProvider string string string
  | OllamaProvider string string

text \<open>
  A value that \<open>generate\<close> reads from the JSON body of a reply and hands on unchecked:
  a string, or something that is not one (\<open>null\<close>, a number, a list, an object).
\<close>

datatype reply_value = Str string | NotStr

text \<open>
  What the body of a 2xx reply of the local host can look like to \<open>generate\<close>: an object
  with a message, whose content is absent (\<open>None\<close>) or a value; a list of chunks, each
  with its content absent or a value; anything else.
\<close>

datatype ollama_data =
    Message "reply_value option"
  | Chunks "reply_value option list"
  | Other

text \<open>
  Everything outside the process: the settings read from the environment, whether the
  \<open>openai\<close> package was importable, the outcome of each search (an exception, or the
  records, each of which \<open>Paper(**item)\<close> accepts or rejects), and the outcome of each
  provider's HTTP exchange: an exception (a failed request, a status that is not 2xx, a
  body that \<open>generate\<close> cannot index), or what \<open>generate\<close> reads from the body.
  For OpenAI that is the content of the first choice, a string or \<open>None\<close>; for
  Together the value at \<open>choices[0].message.content\<close>.
\<close>

record world =
  settings :: app_settings
  openai_pkg :: bool
  search_arxiv :: "string \<Rightarrow> int \<Rightarrow> error + (error + paper) list"
  search_crossref :: "string \<Rightarrow> int \<Rightarrow> error + (error + paper) list"
  openai_reply :: "chat_message list \<Rightarrow> error + string option"
  together_reply :: "chat_message list \<Rightarrow> error + reply_value"
  ollama_reply :: "chat_message list \<Rightarrow> error + ollama_data"

definition new_OpenAIProvider :: "world \<Rightarrow> error + llm_provider" where
  "new_OpenAIProvider w =
     (if str_or (openai_api_key (settings w)) [] = [] then Inl (RuntimeError ''OPENAI_API_KEY is not set'')
      else if \<not> openai_pkg w then Inl (RuntimeError ''openai package not available'')
      else Inr (OpenAIProvider (str_or (openai_api_key (settings w)) []) ''gpt-4o-mini''))"

definition new_TogetherProvider :: "world \<Rightarrow> error + llm_provider" where
  "new_TogetherProvider w =
     (if str_or (together_api_key (settings w)) [] = [] then Inl (RuntimeError ''TOGETHER_API_KEY is not set'')
      else Inr (TogetherProvider (str_or (together_api_key (settings w)) [])
                  ''meta-llama/Meta-Llama-3.1-8B-Instruct-Turbo''
                  ''https://api.together.xyz/v1/chat/completions''))"

text \<open>\<open>str.rstrip("/")\<close>\<close>

definition rstrip_slash :: "string \<Rightarrow> string" where
  "rstrip_slash s = rev (dropWhile (\<lambda>c. c = CHR ''/'') (rev s))"

definition new_OllamaProvider :: "world \<Rightarrow> error + llm_provider" where
  "new_OllamaProvider w = Inr (OllamaProvider ''llama3.1'' (rstrip_slash (ollama_base_url (settings w))))"

definition get_default_llm_provider :: "world \<Rightarrow> string option \<Rightarrow> error + llm_provider" where
  "get_default_llm_provider w preferred =
     (let choice = str_or preferred (str_or (default_llm_provider (settings w)) []) in
      if choice \<noteq> [] \<and> lower choice = ''openai'' then new_OpenAIProvider w
      else if choice \<noteq> [] \<and> lower choice = ''together'' then new_TogetherProvider w
      else if choice \<noteq> [] \<and> lower choice = ''ollama'' then new_OllamaProvider w
      else (case new_OpenAIProvider w of
              Inr p \<Rightarrow> Inr p
            | Inl e \<Rightarrow> (case new_TogetherProvider w of
                          Inr p \<Rightarrow> Inr p
                        | Inl e' \<Rightarrow> new_OllamaProvider w)))"

text \<open>
  The branches of \<open>OllamaProvider.generate\<close> after \<open>resp.json()\<close>. A message hands its
  content on unchecked, the empty string when there is none. Chunks are joined by
  \<open>"".join(parts)\<close>, which raises on a part that is not a string.
\<close>

fun chunk_parts :: "reply_value option list \<Rightarrow> error + string" where
  "chunk_parts [] = Inr []"
| "chunk_parts (None # cs) = chunk_parts cs"
| "chunk_parts (Some NotStr # cs) = Inl (TypeError ''sequence item: expected str instance'')"
| "chunk_parts (Some (Str t) # cs) =
     (case chunk_parts cs of Inl e \<Rightarrow> Inl e | Inr rest \<Rightarrow> Inr (t @ rest))"

fun ollama_text :: "ollama_data \<Rightarrow> error + reply_value" where
  "ollama_text (Message c) = (case c of None \<Rightarrow> Inr (Str []) | Some v \<Rightarrow> Inr v)"
| "ollama_text (Chunks cs) = (case chunk_parts cs of Inl e \<Rightarrow> Inl e | Inr t \<Rightarrow> Inr (Str t))"
| "ollama_text Other = Inr (Str [])"

text \<open>
  \<open>generate\<close>: OpenAI returns \<open>content or ""\<close>, always a string; Together and the local
  host return what they read.
\<close>

fun generate :: "world \<Rightarrow> llm_provider \<Rightarrow> chat_message list \<Rightarrow> error + reply_value" where
  "generate w (OpenAIProvider k m) messages =
     (case openai_reply w messages of Inl e \<Rightarrow> Inl e | Inr c \<Rightarrow> Inr (Str (str_or c [])))"
| "generate w (TogetherProvider k m u) messages = together_reply w messages"
| "generate w (OllamaProvider m u) messages =
     (case ollama_reply w messages of Inl e \<Rightarrow> Inl e | Inr d \<Rightarrow> ollama_text d)"

section \<open>The orchestrator (research.py, api.py)\<close>

definition retrieve_sources :: "world \<Rightarrow> string \<Rightarrow> int \<Rightarrow> paper list" where
  "retrieve_sources w q max_per_source =
     concat (map (\<lambda>res. case res of
                          Inl e \<Rightarrow> []
                        | Inr items \<Rightarrow> concat (map (\<lambda>item. case item of Inl e \<Rightarrow> [] | Inr p \<Rightarrow> [p]) items))
                 [search_arxiv w q max_per_source, search_crossref w q max_per_source])"

text \<open>
  \<open>synthesize_report\<close>: every exception of the provider's construction and of
  \<open>generate\<close> leads to the fallback; a value that \<open>generate\<close> returns is returned.
\<close>

definition synthesize_report :: "world \<Rightarrow> string \<Rightarrow> paper list \<Rightarrow> string option \<Rightarrow> reply_value" where
  "synthesize_report w q sel provider_choice =
     (case get_default_llm_provider w provider_choice of
        Inl e \<Rightarrow> Str (synthesize_fallback q sel)
      | Inr llm \<Rightarrow>
          (case generate w llm (build_synthesis_messages q (build_citations sel)) of
             Inl e \<Rightarrow> Str (synthesize_fallback q sel)
           | Inr v \<Rightarrow> v))"

text \<open>
  The constructor \<open>ResearchResponse(...)\<close>: the field \<open>report_markdown: str\<close> is
  validated, and a value that is not a string raises. The other arguments come from
  validated papers.
\<close>

definition new_ResearchResponse ::
  "string \<Rightarrow> reply_value \<Rightarrow> citation list \<Rightarrow> int \<Rightarrow> paper list \<Rightarrow> error + research_response" where
  "new_ResearchResponse q text cits n sel =
     (case text of
        NotStr \<Rightarrow> Inl (ValidationError ''report_markdown: Input should be a valid string'')
      | Str t \<Rightarrow> Inr \<lparr> query = q, report_markdown = t, citations = cits, num_sources = n,
                      selected = sel \<rparr>)"

text \<open>\<open>run_research\<close> builds the response outside every \<open>try\<close>: its exception is the caller's.\<close>

definition run_research :: "world \<Rightarrow> string \<Rightarrow> int option \<Rightarrow> string option \<Rightarrow> error + research_response" where
  "run_research w q top_k provider_choice =
     (let max_per_source = max_results_per_source (settings w);
          top_k_effective = int_or top_k (top_k_synthesis (settings w));
          all_papers = retrieve_sources w q max_per_source
      in if all_papers = [] then
           (let text = synthesize_report w q [] provider_choice
            in new_ResearchResponse q text [] 0 [])
         else
           (let unique = deduplicate_papers all_papers;
                sel = rank_and_select q unique top_k_effective;
                text = synthesize_report w q sel provider_choice
            in new_ResearchResponse q text (build_citations sel) (int (length sel)) sel))"

text \<open>\<open>POST /research\<close>: the request model checks the types of its fields and nothing else.\<close>

definition research_endpoint :: "world \<Rightarrow> research_request \<Rightarrow> error + research_response" where
  "research_endpoint w req = run_research w (req_query req) (req_top_k req) (req_provider req)"

section \<open>Example inputs\<close>

text \<open>Concrete papers and worlds on which the properties below are instantiated.\<close>

definition example_paper :: "string \<Rightarrow> string \<Rightarrow> paper" where
  "example_paper t a =
     \<lparr> source = ''arxiv'', paper_id = None, title = t, abstract = a, authors = [],
       year = None, url = [], pdf_url = None, doi = None, venue = None \<rparr>"

definition offline_world :: world where
  "offline_world =
     \<lparr> settings = default_settings, openai_pkg = True,
       search_arxiv = (\<lambda>q n. Inl (HTTPError ''arxiv'')),
       search_crossref = (\<lambda>q n. Inl (HTTPError ''crossref'')),
       openai_reply = (\<lambda>m. Inl (HTTPError ''openai'')),
       together_reply = (\<lambda>m. Inl (HTTPError ''together'')),
       ollama_reply = (\<lambda>m. Inl (HTTPError ''ollama'')) \<rparr>"

definition silent_world :: world where
  "silent_world = offline_world \<lparr> ollama_reply := (\<lambda>m. Inr Other) \<rparr>"

definition null_world :: world where
  "null_world = offline_world \<lparr> ollama_reply := (\<lambda>m. Inr (Message (Some NotStr))) \<rparr>"

definition one_paper_world :: world where
  "one_paper_world =
     offline_world \<lparr> search_arxiv := (\<lambda>q n. Inr [Inr (example_paper ''Graph networks'' ''We study graphs.'')]) \<rparr>"

definition six_papers :: "paper list" where
  "six_papers = map (\<lambda>t. example_paper t []) [''A'', ''B'', ''C'', ''D'', ''E'', ''F'']"

text \<open>
  A hundred distinct tokens, and a query with one more; two papers whose titles share 100
  and 101 tokens with the query.
\<close>

definition hundred_tokens :: string where
  "hundred_tokens =
     ''aa ab ac ad ae af ag ah ai aj ba bb bc bd be bf bg bh bi bj ca cb cc cd ce cf cg ch ci cj da db dc dd de df dg dh di dj ea eb ec ed ee ef eg eh ei ej '' @
     ''fa fb fc fd fe ff fg fh fi fj ga gb gc gd ge gf gg gh gi gj ha hb hc hd he hf hg hh hi hj ia ib ic id ie if ig ih ii ij ja jb jc jd je jf jg jh ji jj''"

definition long_query :: string where
  "long_query = hundred_tokens @ '' ka''"

definition paper_100 :: paper where
  "paper_100 = example_paper hundred_tokens []"

definition paper_101 :: paper where
  "paper_101 = example_paper (hundred_tokens @ '' ka'') []"

text \<open>
  Four papers: two under one DOI written in two ways, the second with the longer
  abstract, one without DOI, and one under another DOI.
\<close>

definition doi_papers :: "paper list" where
  "doi_papers =
     [(example_paper ''First'' ''short'') \<lparr> doi := Some '' 10.1/ABC '' \<rparr>,
      example_paper ''No identifier'' ''none'',
      (example_paper ''Second'' ''much longer'') \<lparr> doi := Some ''10.1/abc'' \<rparr>,
      (example_paper ''Third'' ''other'') \<lparr> doi := Some ''10.2/x'' \<rparr>]"

text \<open>Three titles of ten, eleven and twelve tokens, each containing the one before.\<close>

definition chain_a :: paper where
  "chain_a = example_paper ''a b c d e f g h i j'' []"

definition chain_b :: paper where
  "chain_b = example_paper ''a b c d e f g h i j k'' []"

definition chain_c :: paper where
  "chain_c = example_paper ''a b c d e f g h i j k l'' []"

section \<open>Definitions that follow the specification\<close>

text \<open>The test \<open>if p.doi\<close> and the key of a paper that passes it.\<close>

abbreviation has_doi :: "paper \<Rightarrow> bool" where
  "has_doi p \<equiv> str_or (doi p) [] \<noteq> []"

abbreviation doi_key_of :: "paper \<Rightarrow> string" where
  "doi_key_of p \<equiv> doi_key (str_or (doi p) [])"

text \<open>The score as the specification gives it: the same expression over the reals.\<close>

definition score_formula :: "string \<Rightarrow> paper \<Rightarrow> real" where
  "score_formula q paper = score_paper_with (\<lambda>x. x) q paper"

text \<open>
  The title phase as claim C1 words it: a paper is compared with the earlier papers that
  were kept, and only with those.
\<close>

fun claimed_title_loop :: "(paper \<times> string set) list \<Rightarrow> (paper \<times> string set) list \<Rightarrow> paper list" where
  "claimed_title_loop kept_toks [] = []"
| "claimed_title_loop kept_toks ((p, toks) # rest) =
     (if is_dup kept_toks toks then claimed_title_loop kept_toks rest
      else p # claimed_title_loop (kept_toks @ [(p, toks)]) rest)"

text \<open>
  The DOI phase as claim C5 words it: the key is the DOI, lower-cased and trimmed; the
  keys come in the order in which they are first seen, and for one key the paper kept is
  the one left after a run over the papers of that key, where a later paper replaces the
  kept one when its abstract is strictly longer.
\<close>

fun first_seen :: "'a list \<Rightarrow> 'a list" where
  "first_seen [] = []"
| "first_seen (k # ks) = k # filter (\<lambda>x. x \<noteq> k) (first_seen ks)"

fun keep_longest :: "paper \<Rightarrow> paper list \<Rightarrow> paper" where
  "keep_longest kept [] = kept"
| "keep_longest kept (p # ps) =
     keep_longest (if length (abstract p) > length (abstract kept) then p else kept) ps"

definition claimed_key :: "paper \<Rightarrow> string" where
  "claimed_key p = strip (lower (case doi p of None \<Rightarrow> [] | Some d \<Rightarrow> d))"

definition claimed_doi_phase :: "paper list \<Rightarrow> paper list" where
  "claimed_doi_phase ps =
     concat (map (\<lambda>k. case filter (\<lambda>p. has_doi p \<and> claimed_key p = k) ps of
                        [] \<Rightarrow> []
                      | g # gs \<Rightarrow> [keep_longest g gs])
                 (first_seen (map claimed_key (filter has_doi ps))))"

text \<open>
  The Background bullet as claim C9 words it: the abstract, or the title when the abstract
  is empty, cut at 600 characters, with no stripping.
\<close>

definition claimed_background_bullet :: "nat \<Rightarrow> paper \<Rightarrow> string" where
  "claimed_background_bullet idx p =
     (let s = (if abstract p \<noteq> [] then abstract p else title p) in
      ''- '' @ title p @ '' ['' @ str_int (int idx) @ '']: '' @ take 600 s @
      (if length s > 600 then ''...'' else []) @ nl)"

section \<open>Properties of the text utilities\<close>

lemma is_space_sp: "is_space (CHR '' '')" by (simp add: is_space_def ord_def)

lemma not_alnum_space: "is_lc_alnum c \<Longrightarrow> \<not> is_space c"
  by (auto simp: is_lc_alnum_def is_space_def)

lemma lower_char_fix: "is_lc_alnum c \<or> c = CHR '' '' \<Longrightarrow> lower_char c = c"
  by (auto simp: lower_char_def is_lc_alnum_def ord_def)

lemma punct_sub_set: "c \<in> set (punct_sub s) \<Longrightarrow> is_lc_alnum c \<or> is_space c"
  by (auto simp: punct_sub_def is_space_sp split: if_splits)

lemma ws_sub_set: "c \<in> set (ws_sub s) \<Longrightarrow> c = CHR '' '' \<or> (c \<in> set s \<and> \<not> is_space c)"
proof (induction s rule: ws_sub.induct)
  case 1 then show ?case by simp
next
  case (2 d cs)
  then show ?case
    by (auto split: if_splits dest: set_dropWhileD)
qed

lemma ws_sub_hd: "s \<noteq> [] \<Longrightarrow> \<not> is_space (hd s) \<Longrightarrow> ws_sub s \<noteq> [] \<and> hd (ws_sub s) = hd s"
  by (cases s) auto

lemma ws_sub_succ: "successively (\<lambda>a b. \<not> (is_space a \<and> is_space b)) (ws_sub s)"
proof (induction s rule: ws_sub.induct)
  case 1 then show ?case by simp
next
  case (2 c cs)
  show ?case
  proof (cases "is_space c")
    case True
    let ?r = "dropWhile is_space cs"
    have ih: "successively (\<lambda>a b. \<not> (is_space a \<and> is_space b)) (ws_sub ?r)"
      using 2(1) True by simp
    show ?thesis
    proof (cases ?r)
      case Nil
      then have "ws_sub (c # cs) = [CHR '' '']"
        using True by (simp del: dropWhile_eq_Nil_conv)
      then show ?thesis by simp
    next
      case (Cons d ds)
      then have "\<not> is_space d" using hd_dropWhile[of is_space cs] by auto
      then show ?thesis using True ih Cons by (simp add: successively_Cons)
    qed
  next
    case False
    then show ?thesis using 2(2) by (cases "ws_sub cs") (auto simp: successively_Cons)
  qed
qed

lemma succ_dropWhile: "successively P s \<Longrightarrow> successively P (dropWhile Q s)"
proof -
  assume a: "successively P s"
  have "s = takeWhile Q s @ dropWhile Q s" by simp
  then have "successively P (takeWhile Q s @ dropWhile Q s)" using a by simp
  then show ?thesis unfolding successively_append_iff by simp
qed

lemma strip_set: "c \<in> set (strip s) \<Longrightarrow> c \<in> set s"
  by (auto simp: strip_def dest!: set_dropWhileD)

lemma strip_succ:
  "successively (\<lambda>a b. \<not> (is_space a \<and> is_space b)) s \<Longrightarrow>
   successively (\<lambda>a b. \<not> (is_space a \<and> is_space b)) (strip s)"
proof -
  let ?P = "\<lambda>a b. \<not> (is_space a \<and> is_space b)"
  assume "successively ?P s"
  then have "successively ?P (dropWhile is_space s)" by (rule succ_dropWhile)
  then have "successively (\<lambda>a b. ?P b a) (rev (dropWhile is_space s))" by simp
  then have "successively (\<lambda>a b. ?P b a) (dropWhile is_space (rev (dropWhile is_space s)))"
    by (rule succ_dropWhile)
  then have "successively (\<lambda>a b. ?P a b) (rev (dropWhile is_space (rev (dropWhile is_space s))))"
    by simp
  then show ?thesis by (simp add: strip_def)
qed

lemma last_dropWhile_ne: "dropWhile Q s \<noteq> [] \<Longrightarrow> last (dropWhile Q s) = last s"
proof -
  assume a: "dropWhile Q s \<noteq> []"
  have "last s = last (takeWhile Q s @ dropWhile Q s)" by simp
  also have "\<dots> = last (dropWhile Q s)" using a by (simp only: last_append if_False)
  finally show ?thesis by simp
qed

lemma strip_ends:
  assumes "strip s \<noteq> []"
  shows "\<not> is_space (hd (strip s)) \<and> \<not> is_space (last (strip s))"
proof -
  let ?u = "dropWhile is_space s"
  let ?v = "dropWhile is_space (rev ?u)"
  have v: "?v \<noteq> []" using assms by (simp add: strip_def)
  have u: "?u \<noteq> []"
  proof
    assume "?u = []"
    then have "?v = []" by (simp only: rev.simps dropWhile.simps)
    with v show False by blast
  qed
  have "last (strip s) = hd ?v" using v by (simp add: strip_def last_rev)
  moreover have "\<not> is_space (hd ?v)" using v hd_dropWhile by blast
  moreover have "hd (strip s) = last ?v" using v by (simp add: strip_def hd_rev)
  moreover have "last ?v = last (rev ?u)" using v by (rule last_dropWhile_ne)
  moreover have "last (rev ?u) = hd ?u" using u by (simp add: last_rev)
  moreover have "\<not> is_space (hd ?u)" using u hd_dropWhile by blast
  ultimately show ?thesis by simp
qed

lemma ws_sub_fix:
  "successively (\<lambda>a b. \<not> (is_space a \<and> is_space b)) s \<Longrightarrow>
   \<forall>c\<in>set s. is_space c \<longrightarrow> c = CHR '' '' \<Longrightarrow> ws_sub s = s"
proof (induction s rule: ws_sub.induct)
  case 1 then show ?case by simp
next
  case (2 c cs)
  show ?case
  proof (cases "is_space c")
    case True
    then have c: "c = CHR '' ''" using 2(4) by simp
    have d: "dropWhile is_space cs = cs"
      using 2(3) True by (cases cs) (auto simp: successively_Cons)
    have "successively (\<lambda>a b. \<not> (is_space a \<and> is_space b)) cs"
      using 2(3) by (cases cs) (auto simp: successively_Cons)
    then have "ws_sub cs = cs" using 2(1) True d 2(4) by simp
    then show ?thesis using True c d by simp
  next
    case False
    have "successively (\<lambda>a b. \<not> (is_space a \<and> is_space b)) cs"
      using 2(3) by (cases cs) (auto simp: successively_Cons)
    then have "ws_sub cs = cs" using 2(2) False 2(4) by simp
    then show ?thesis using False by simp
  qed
qed

lemma strip_fix: "s = [] \<or> (\<not> is_space (hd s) \<and> \<not> is_space (last s)) \<Longrightarrow> strip s = s"
proof (cases s)
  case Nil then show ?thesis by (simp add: strip_def)
next
  case (Cons a as)
  assume "s = [] \<or> (\<not> is_space (hd s) \<and> \<not> is_space (last s))"
  then have h: "\<not> is_space (hd s)" and l: "\<not> is_space (last s)" using Cons by auto
  have 1: "dropWhile is_space s = s" using h Cons by simp
  have "hd (rev s) = last s" using Cons by (simp add: hd_rev)
  then have 2: "dropWhile is_space (rev s) = rev s" using l Cons by (cases "rev s") auto
  show ?thesis by (simp add: strip_def 1 2)
qed

lemma normalize_title_chars:
  "c \<in> set (normalize_title x) \<Longrightarrow> is_lc_alnum c \<or> c = CHR '' ''"
  unfolding normalize_title_def
  using strip_set ws_sub_set punct_sub_set by blast

lemma normalize_title_idem: "normalize_title (normalize_title x) = normalize_title x"
proof -
  let ?t = "normalize_title x"
  have ch: "\<forall>c\<in>set ?t. is_lc_alnum c \<or> c = CHR '' ''"
    using normalize_title_chars by blast
  have 1: "lower ?t = ?t"
    unfolding lower_def using ch lower_char_fix by (intro map_idI) blast
  have 2: "punct_sub ?t = ?t"
    unfolding punct_sub_def using ch is_space_sp by (intro map_idI) auto
  have sp: "\<forall>c\<in>set ?t. is_space c \<longrightarrow> c = CHR '' ''"
    using ch not_alnum_space by blast
  have su: "successively (\<lambda>a b. \<not> (is_space a \<and> is_space b)) ?t"
    unfolding normalize_title_def by (intro strip_succ ws_sub_succ)
  have 3: "ws_sub ?t = ?t" using su sp by (rule ws_sub_fix)
  have "?t = [] \<or> (\<not> is_space (hd ?t) \<and> \<not> is_space (last ?t))"
    unfolding normalize_title_def using strip_ends by blast
  then have 4: "strip ?t = ?t" by (rule strip_fix)
  show ?thesis
    by (subst (1) normalize_title_def) (simp only: 1 2 3 4)
qed

text \<open>
  Claim C8. Normalising a title a second time changes nothing, so the tokens of a
  normalised title are the tokens of the title: for every string \<open>x\<close>,
  \<open>tokenize (normalize_title x) = tokenize x\<close>.
\<close>

theorem tokenize_normalize_title: "tokenize (normalize_title x) = tokenize x"
  by (simp add: tokenize_def normalize_title_idem)

section \<open>Properties of the orchestrator and the providers\<close>

lemma length_build_citations: "length (build_citations sel) = length sel"
  by (simp add: build_citations_def)

lemma build_citations_nth: "i < length sel \<Longrightarrow> build_citations sel ! i = cite (Suc i) (sel ! i)"
  by (simp add: build_citations_def nth_enumerate_eq)

lemma build_citations_Nil: "build_citations [] = []"
  by (simp add: build_citations_def)

lemma new_ResearchResponse_Inr:
  "new_ResearchResponse q text cits n sel = Inr r \<Longrightarrow>
   query r = q \<and> text = Str (report_markdown r) \<and> citations r = cits \<and> num_sources r = n \<and>
   selected r = sel"
  by (cases "text") (auto simp: new_ResearchResponse_def)

lemma run_research_shape:
  assumes "run_research w q top_k pc = Inr r"
  shows "citations r = build_citations (selected r) \<and> num_sources r = int (length (selected r))"
proof (cases "retrieve_sources w q (max_results_per_source (settings w)) = []")
  case True
  then have "new_ResearchResponse q (synthesize_report w q [] pc) [] 0 [] = Inr r"
    using assms by (simp add: run_research_def Let_def)
  from new_ResearchResponse_Inr [OF this] show ?thesis by (simp add: build_citations_Nil)
next
  case False
  let ?sel = "rank_and_select q
      (deduplicate_papers (retrieve_sources w q (max_results_per_source (settings w))))
      (int_or top_k (top_k_synthesis (settings w)))"
  have "new_ResearchResponse q (synthesize_report w q ?sel pc) (build_citations ?sel)
          (int (length ?sel)) ?sel = Inr r"
    using assms False by (simp add: run_research_def Let_def)
  from new_ResearchResponse_Inr [OF this] show ?thesis by simp
qed

lemma length_slice_to: "0 \<le> k \<Longrightarrow> length (slice_to k xs) = min (nat k) (length xs)"
  by (simp add: slice_to_def)

lemma length_rank_and_select:
  "0 \<le> k \<Longrightarrow> length (rank_and_select q ps k) = min (nat k) (length ps)"
  by (simp add: rank_and_select_def Let_def sort_desc_def length_slice_to)

lemma deduplicate_papers_Nil: "deduplicate_papers [] = []"
  by (simp add: deduplicate_papers_def doi_loop_def)

lemma deduplicate_papers_single_no_doi:
  "doi p = None \<Longrightarrow> deduplicate_papers [p] = [p]"
  by (simp add: deduplicate_papers_def doi_loop_def doi_step_def str_or_def is_dup_def)

lemma rank_and_select_single: "0 < k \<Longrightarrow> rank_and_select q [p] k = [p]"
  by (simp add: rank_and_select_def sort_desc_def slice_to_def)

lemma retrieve_one_paper_world:
  "retrieve_sources one_paper_world q n = [example_paper ''Graph networks'' ''We study graphs.'']"
  by (simp add: retrieve_sources_def one_paper_world_def offline_world_def)

lemma retrieve_offline_world: "retrieve_sources offline_world q n = []"
  by (simp add: retrieve_sources_def offline_world_def)

lemma retrieve_silent_world: "retrieve_sources silent_world q n = []"
  by (simp add: retrieve_sources_def silent_world_def offline_world_def)

lemma retrieve_null_world: "retrieve_sources null_world q n = []"
  by (simp add: retrieve_sources_def null_world_def offline_world_def)

lemma settings_worlds:
  "settings offline_world = default_settings"
  "settings silent_world = default_settings"
  "settings null_world = default_settings"
  "settings one_paper_world = default_settings"
  by (simp_all add: one_paper_world_def silent_world_def null_world_def offline_world_def)

lemma rstrip_slash_default: "rstrip_slash ''http://localhost:11434'' = ''http://localhost:11434''"
  by (simp add: rstrip_slash_def)

lemma get_provider_default_settings:
  "settings w = default_settings \<Longrightarrow>
   get_default_llm_provider w None = Inr (OllamaProvider ''llama3.1'' ''http://localhost:11434'')"
  by (simp add: get_default_llm_provider_def Let_def str_or_def new_OpenAIProvider_def
      new_TogetherProvider_def new_OllamaProvider_def default_settings_def rstrip_slash_default)

lemma ollama_reply_worlds:
  "ollama_reply offline_world msgs = Inl (HTTPError ''ollama'')"
  "ollama_reply one_paper_world msgs = Inl (HTTPError ''ollama'')"
  "ollama_reply silent_world msgs = Inr Other"
  "ollama_reply null_world msgs = Inr (Message (Some NotStr))"
  by (simp_all add: one_paper_world_def silent_world_def null_world_def offline_world_def)

lemma synthesize_report_worlds:
  "synthesize_report offline_world q sel None = Str (synthesize_fallback q sel)"
  "synthesize_report one_paper_world q sel None = Str (synthesize_fallback q sel)"
  "synthesize_report silent_world q sel None = Str []"
  "synthesize_report null_world q sel None = NotStr"
  by (simp_all add: synthesize_report_def get_provider_default_settings settings_worlds
      ollama_reply_worlds)

lemma run_one_paper_world:
  "run_research one_paper_world q None None =
   Inr \<lparr> query = q,
         report_markdown = synthesize_fallback q [example_paper ''Graph networks'' ''We study graphs.''],
         citations = build_citations [example_paper ''Graph networks'' ''We study graphs.''],
         num_sources = 1,
         selected = [example_paper ''Graph networks'' ''We study graphs.''] \<rparr>"
proof -
  have d: "deduplicate_papers [example_paper ''Graph networks'' ''We study graphs.''] =
           [example_paper ''Graph networks'' ''We study graphs.'']"
    by (rule deduplicate_papers_single_no_doi) (simp add: example_paper_def)
  show ?thesis
    by (simp add: run_research_def Let_def retrieve_one_paper_world d rank_and_select_single
        int_or_def settings_worlds default_settings_def synthesize_report_worlds
        new_ResearchResponse_def)
qed

text \<open>
  Claim C3. In every response that \<open>run_research\<close> returns the citations and the selected
  papers have the same length, \<open>num_sources\<close> is that length, and the citation at
  position \<open>i\<close> (counting from 0) has index \<open>i + 1\<close> and copies title, authors, year, DOI
  and source of the selected paper at that position; its URL is the paper's \<open>url\<close> when
  that is not empty, else its \<open>pdf_url\<close>, else the empty string.
\<close>

theorem run_research_citations_parallel:
  assumes "run_research w q top_k pc = Inr r"
  shows "length (citations r) = length (selected r) \<and>
   num_sources r = int (length (selected r)) \<and>
   (\<forall>i < length (selected r).
      citations r ! i =
        \<lparr> c_index = int i + 1,
          c_title = title (selected r ! i),
          c_authors = authors (selected r ! i),
          c_year = year (selected r ! i),
          c_doi = doi (selected r ! i),
          c_url = (if url (selected r ! i) \<noteq> [] then url (selected r ! i)
                   else (case pdf_url (selected r ! i) of None \<Rightarrow> [] | Some u \<Rightarrow> u)),
          c_source = source (selected r ! i) \<rparr>)"
proof -
  have c: "citations r = build_citations (selected r)"
    and n: "num_sources r = int (length (selected r))"
    using run_research_shape [OF assms] by blast+
  have u: "str_or x [] = (case x of None \<Rightarrow> [] | Some u \<Rightarrow> u)" for x
    by (simp add: str_or_def split: option.splits)
  show ?thesis
    by (simp add: c n length_build_citations build_citations_nth cite_def u)
qed

theorem run_research_citations_parallel_witness:
  "run_research one_paper_world ''graphs'' None None =
     Inr (projr (run_research one_paper_world ''graphs'' None None)) \<and>
   length (citations (projr (run_research one_paper_world ''graphs'' None None))) = 1 \<and>
   num_sources (projr (run_research one_paper_world ''graphs'' None None)) = 1 \<and>
   citations (projr (run_research one_paper_world ''graphs'' None None)) ! 0 =
     \<lparr> c_index = 1, c_title = ''Graph networks'', c_authors = [], c_year = None,
       c_doi = None, c_url = [], c_source = ''arxiv'' \<rparr>"
proof -
  have r: "run_research one_paper_world ''graphs'' None None =
     Inr (projr (run_research one_paper_world ''graphs'' None None))"
    by (simp add: run_one_paper_world)
  have s: "selected (projr (run_research one_paper_world ''graphs'' None None)) =
     [example_paper ''Graph networks'' ''We study graphs.'']"
    by (simp add: run_one_paper_world)
  show ?thesis
    using run_research_citations_parallel [OF r] r by (simp add: s example_paper_def)
qed

text \<open>
  Claim C10. \<open>run_research\<close> with \<open>top_k = 0\<close> does what it does with \<open>top_k\<close> absent;
  the endpoint hands the request's \<open>top_k\<close> over unchecked, so a request with
  \<open>top_k = 0\<close> is answered like one without, and with the configured default of 10 its
  response selects \<open>min 10 n\<close> of the \<open>n\<close> deduplicated papers.
\<close>

theorem run_research_top_k_zero:
  "run_research w q (Some 0) pc = run_research w q None pc \<and>
   research_endpoint w \<lparr> req_query = q, req_top_k = Some 0, req_provider = pc \<rparr> =
     run_research w q None pc \<and>
   (top_k_synthesis (settings w) = 10 \<longrightarrow>
      (\<forall>r. research_endpoint w \<lparr> req_query = q, req_top_k = Some 0, req_provider = pc \<rparr> = Inr r \<longrightarrow>
         length (selected r) =
           min 10 (length (deduplicate_papers (retrieve_sources w q (max_results_per_source (settings w)))))))"
proof -
  have e: "run_research w q (Some 0) pc = run_research w q None pc"
    by (simp add: run_research_def Let_def int_or_def)
  have l: "length (selected r) =
           min 10 (length (deduplicate_papers (retrieve_sources w q (max_results_per_source (settings w)))))"
    if k: "top_k_synthesis (settings w) = 10" and r: "run_research w q None pc = Inr r" for r
  proof (cases "retrieve_sources w q (max_results_per_source (settings w)) = []")
    case True
    then have "new_ResearchResponse q (synthesize_report w q [] pc) [] 0 [] = Inr r"
      using r by (simp add: run_research_def Let_def)
    from new_ResearchResponse_Inr [OF this] show ?thesis
      using True by (simp add: deduplicate_papers_Nil)
  next
    case False
    let ?sel = "rank_and_select q
        (deduplicate_papers (retrieve_sources w q (max_results_per_source (settings w)))) 10"
    have "new_ResearchResponse q (synthesize_report w q ?sel pc) (build_citations ?sel)
            (int (length ?sel)) ?sel = Inr r"
      using r False k by (simp add: run_research_def Let_def int_or_def)
    from new_ResearchResponse_Inr [OF this] show ?thesis
      by (simp add: length_rank_and_select)
  qed
  show ?thesis using e l by (simp add: research_endpoint_def)
qed

theorem run_research_top_k_zero_witness:
  "top_k_synthesis (settings one_paper_world) = 10 \<and>
   research_endpoint one_paper_world
      \<lparr> req_query = ''graphs'', req_top_k = Some 0, req_provider = None \<rparr> =
     Inr (projr (run_research one_paper_world ''graphs'' None None)) \<and>
   length (selected (projr (run_research one_paper_world ''graphs'' None None))) = 1"
proof -
  have k: "top_k_synthesis (settings one_paper_world) = 10"
    by (simp add: settings_worlds default_settings_def)
  have r: "research_endpoint one_paper_world
      \<lparr> req_query = ''graphs'', req_top_k = Some 0, req_provider = None \<rparr> =
     Inr (projr (run_research one_paper_world ''graphs'' None None))"
    using run_research_top_k_zero [of one_paper_world "''graphs''" None]
    by (simp add: run_one_paper_world)
  have "length (selected (projr (run_research one_paper_world ''graphs'' None None))) =
    min 10 (length (deduplicate_papers (retrieve_sources one_paper_world ''graphs''
      (max_results_per_source (settings one_paper_world)))))"
    using run_research_top_k_zero [of one_paper_world "''graphs''" None] k r by blast
  then show ?thesis
    using k r by (simp add: retrieve_one_paper_world deduplicate_papers_single_no_doi example_paper_def)
qed

text \<open>
  Claim C6. With no preference (the argument and the configured default are both
  \<open>None\<close> or empty) \<open>get_default_llm_provider\<close> always returns a provider: the OpenAI one
  when it can be constructed, else the Together one when that can be constructed, else the
  local-host one; with neither API key configured it is the local-host provider.
\<close>

theorem get_default_llm_provider_unpreferred:
  assumes "str_or preferred [] = []"
    and "str_or (default_llm_provider (settings w)) [] = []"
  shows "(\<exists>p. get_default_llm_provider w preferred = Inr p) \<and>
         (\<forall>p. new_OpenAIProvider w = Inr p \<longrightarrow> get_default_llm_provider w preferred = Inr p) \<and>
         (\<forall>e p. new_OpenAIProvider w = Inl e \<longrightarrow> new_TogetherProvider w = Inr p \<longrightarrow>
                 get_default_llm_provider w preferred = Inr p) \<and>
         (\<forall>e e'. new_OpenAIProvider w = Inl e \<longrightarrow> new_TogetherProvider w = Inl e' \<longrightarrow>
                 get_default_llm_provider w preferred =
                   Inr (OllamaProvider ''llama3.1'' (rstrip_slash (ollama_base_url (settings w))))) \<and>
         (str_or (openai_api_key (settings w)) [] = [] \<longrightarrow>
          str_or (together_api_key (settings w)) [] = [] \<longrightarrow>
            get_default_llm_provider w preferred =
              Inr (OllamaProvider ''llama3.1'' (rstrip_slash (ollama_base_url (settings w)))))"
  using assms
  by (auto simp: get_default_llm_provider_def Let_def new_OllamaProvider_def
      new_OpenAIProvider_def new_TogetherProvider_def split: sum.splits)

theorem get_default_llm_provider_unpreferred_witness:
  "str_or None [] = [] \<and> str_or (default_llm_provider (settings offline_world)) [] = [] \<and>
   str_or (openai_api_key (settings offline_world)) [] = [] \<and>
   str_or (together_api_key (settings offline_world)) [] = [] \<and>
   get_default_llm_provider offline_world None = Inr (OllamaProvider ''llama3.1'' ''http://localhost:11434'')"
  using get_default_llm_provider_unpreferred [of None offline_world]
  by (simp add: str_or_def offline_world_def default_settings_def rstrip_slash_default)

section \<open>Properties of rank_and_select\<close>

lemma insort_key_scored:
  "insort_key (\<lambda>x. - fst x) (sc p, p) (map (\<lambda>p. (sc p, p)) ys) =
   map (\<lambda>p. (sc p, p)) (insort_key (\<lambda>p. - sc p) p ys)"
  by (induction ys) auto

lemma sort_desc_scored:
  "sort_desc (map (\<lambda>p. (sc p, p)) ps) = map (\<lambda>p. (sc p, p)) (sort_key (\<lambda>p. - sc p) ps)"
  unfolding sort_desc_def
  by (induction ps) (simp_all add: insort_key_scored)

lemma slice_to_map: "slice_to k (map f xs) = map f (slice_to k xs)"
  by (simp add: slice_to_def take_map)

lemma rank_and_select_eq:
  "rank_and_select q ps k = slice_to k (sort_key (\<lambda>p. - score_paper q p) ps)"
  by (simp add: rank_and_select_def Let_def sort_desc_scored slice_to_map comp_def)

lemma sorted_desc_sort_key:
  "sorted_wrt (\<lambda>a b. sc b \<le> (sc a :: real)) (sort_key (\<lambda>p. - sc p) ps)"
proof -
  have "sorted (map (\<lambda>p. - sc p) (sort_key (\<lambda>p. - sc p) ps))" by (rule sorted_sort_key)
  then show ?thesis by (simp add: sorted_map)
qed

lemma take_ge_drop:
  assumes "sorted_wrt (\<lambda>a b. sc b \<le> (sc a :: real)) s" "a \<in> set (take n s)" "b \<in> set (drop n s)"
  shows "sc b \<le> sc a"
proof -
  have "sorted_wrt (\<lambda>a b. sc b \<le> sc a) (take n s @ drop n s)" using assms(1) by simp
  then show ?thesis using assms(2,3) unfolding sorted_wrt_append by blast
qed

lemma mset_minus_take: "mset xs - mset (take n xs) = mset (drop n xs)"
proof -
  have "mset xs = mset (take n xs) + mset (drop n xs)"
    by (metis append_take_drop_id mset_append)
  then show ?thesis by simp
qed

lemma filter_take_prefix: "prefix (filter P (take n xs)) (filter P xs)"
proof -
  have "filter P xs = filter P (take n xs) @ filter P (drop n xs)"
    by (metis append_take_drop_id filter_append)
  then show ?thesis by (simp add: prefix_def)
qed

lemma sort_key_neg_stable:
  "filter (\<lambda>p. sc p = (v::real)) (sort_key (\<lambda>p. - sc p) ps) = filter (\<lambda>p. sc p = v) ps"
  using sort_key_stable [of "\<lambda>p. - sc p" "- v" ps] by simp

text \<open>
  Claim C4, for \<open>top_k \<ge> 0\<close>. \<open>rank_and_select\<close> returns \<open>min top_k n\<close> of the \<open>n\<close>
  papers, sorted by descending score. The sort is stable: for every score, the returned
  papers of that score are the first ones of that score in the input, in the input's
  order. No returned paper scores lower than a paper that was left out.
\<close>

theorem rank_and_select_top_k:
  assumes "0 \<le> top_k"
  shows "length (rank_and_select q papers top_k) = min (nat top_k) (length papers) \<and>
         mset (rank_and_select q papers top_k) \<subseteq># mset papers \<and>
         sorted_wrt (\<lambda>a b. score_paper q b \<le> score_paper q a) (rank_and_select q papers top_k) \<and>
         (\<forall>v. prefix (filter (\<lambda>p. score_paper q p = v) (rank_and_select q papers top_k))
                     (filter (\<lambda>p. score_paper q p = v) papers)) \<and>
         (\<forall>a \<in> set (rank_and_select q papers top_k).
            \<forall>b \<in># mset papers - mset (rank_and_select q papers top_k).
              score_paper q b \<le> score_paper q a)"
proof -
  let ?s = "sort_key (\<lambda>p. - score_paper q p) papers"
  have r: "rank_and_select q papers top_k = take (nat top_k) ?s"
    using assms by (simp add: rank_and_select_eq slice_to_def)
  have so: "sorted_wrt (\<lambda>a b. score_paper q b \<le> score_paper q a) ?s"
    by (rule sorted_desc_sort_key)
  have ms: "mset ?s = mset papers" by simp
  have 1: "length (rank_and_select q papers top_k) = min (nat top_k) (length papers)"
    by (simp add: r)
  have 2: "mset (rank_and_select q papers top_k) \<subseteq># mset papers"
    unfolding r ms [symmetric] by (metis append_take_drop_id mset_append mset_subset_eq_add_left)
  have 3: "sorted_wrt (\<lambda>a b. score_paper q b \<le> score_paper q a) (rank_and_select q papers top_k)"
    unfolding r using so by (rule sorted_wrt_take)
  have 4: "prefix (filter (\<lambda>p. score_paper q p = v) (rank_and_select q papers top_k))
                  (filter (\<lambda>p. score_paper q p = v) papers)" for v
    unfolding r using filter_take_prefix [of "\<lambda>p. score_paper q p = v" "nat top_k" ?s]
    by (simp add: sort_key_neg_stable)
  have d: "mset papers - mset (rank_and_select q papers top_k) = mset (drop (nat top_k) ?s)"
    unfolding r ms [symmetric] by (rule mset_minus_take)
  have 5: "score_paper q b \<le> score_paper q a"
    if "a \<in> set (rank_and_select q papers top_k)"
      and "b \<in># mset papers - mset (rank_and_select q papers top_k)" for a b
  proof -
    have "b \<in> set (drop (nat top_k) ?s)" using that(2) d by simp
    moreover have "a \<in> set (take (nat top_k) ?s)" using that(1) r by simp
    ultimately show ?thesis using take_ge_drop [OF so] by blast
  qed
  show ?thesis using 1 2 3 4 5 by blast
qed

lemma length_slice_to_neg: "k < 0 \<Longrightarrow> length (slice_to k xs) = nat (int (length xs) + k)"
  by (simp add: slice_to_def)

text \<open>
  The slice \<open>scored[:top_k]\<close> with a negative \<open>top_k\<close> drops from the end: with
  \<open>top_k = -1\<close> two papers give one, not \<open>min top_k n\<close>.
\<close>

theorem rank_and_select_negative_top_k:
  "length (rank_and_select ''graphs'' [example_paper ''A'' [], example_paper ''B'' []] (- 1)) = 1 \<and>
   min (- 1) (int (length [example_paper ''A'' [], example_paper ''B'' []])) = - 1"
  by (simp add: rank_and_select_eq length_slice_to_neg)

theorem rank_and_select_top_k_witness:
  "(0::int) \<le> 1 \<and>
   length (rank_and_select ''graphs'' [example_paper ''A'' [], example_paper ''B'' []] 1) = 1"
  using rank_and_select_top_k [of 1 "''graphs''" "[example_paper ''A'' [], example_paper ''B'' []]"]
  by simp

section \<open>Properties of the empty retrieval\<close>

lemma join_Cons_nonempty: "x \<noteq> [] \<Longrightarrow> join sep (x # xs) \<noteq> []"
  by (cases xs) auto

lemma synthesize_fallback_nonempty: "synthesize_fallback q sel \<noteq> []"
  by (simp add: synthesize_fallback_def fallback_lines_def Let_def join_Cons_nonempty)

lemma run_research_no_papers_eq:
  "retrieve_sources w q (max_results_per_source (settings w)) = [] \<Longrightarrow>
   run_research w q top_k pc = new_ResearchResponse q (synthesize_report w q [] pc) [] 0 []"
  by (simp add: run_research_def Let_def)

text \<open>
  The path the claims leave out: a reply whose content is not a string is handed on by
  \<open>generate\<close> and \<open>synthesize_report\<close> and refused by the response model, so
  \<open>run_research\<close> raises.
\<close>

lemma run_research_invalid_reply:
  assumes "retrieve_sources w q (max_results_per_source (settings w)) = []"
    and "get_default_llm_provider w pc = Inr llm"
    and "generate w llm (build_synthesis_messages q []) = Inr NotStr"
  shows "run_research w q top_k pc =
         Inl (ValidationError ''report_markdown: Input should be a valid string'')"
  using assms
  by (simp add: run_research_no_papers_eq synthesize_report_def build_citations_Nil
      new_ResearchResponse_def)

text \<open>
  Claim C2, as the code has it. When no paper is retrieved, every response that
  \<open>run_research\<close> returns has \<open>num_sources = 0\<close>, no citations and no selected papers.
  When a provider is constructed and its generation returns a string, \<open>run_research\<close>
  returns with that string, whatever it is, as the report; when no provider is constructed
  or the generation raises, it returns with the fallback report, which is not empty.
\<close>

theorem run_research_no_papers:
  assumes "retrieve_sources w q (max_results_per_source (settings w)) = []"
  shows "(\<forall>r. run_research w q top_k pc = Inr r \<longrightarrow>
            num_sources r = 0 \<and> citations r = [] \<and> selected r = []) \<and>
         (\<forall>llm reply. get_default_llm_provider w pc = Inr llm \<longrightarrow>
            generate w llm (build_synthesis_messages q []) = Inr (Str reply) \<longrightarrow>
            run_research w q top_k pc =
              Inr \<lparr> query = q, report_markdown = reply, citations = [], num_sources = 0,
                    selected = [] \<rparr>) \<and>
         ((\<nexists>llm v. get_default_llm_provider w pc = Inr llm \<and>
              generate w llm (build_synthesis_messages q []) = Inr v) \<longrightarrow>
            run_research w q top_k pc =
              Inr \<lparr> query = q, report_markdown = synthesize_fallback q [], citations = [],
                    num_sources = 0, selected = [] \<rparr> \<and>
            synthesize_fallback q [] \<noteq> [])"
proof -
  note e = run_research_no_papers_eq [OF assms, of top_k pc]
  have 1: "num_sources r = 0 \<and> citations r = [] \<and> selected r = []"
    if "run_research w q top_k pc = Inr r" for r
    using new_ResearchResponse_Inr [of q "synthesize_report w q [] pc" "[]" 0 "[]" r] that e
    by simp
  have 2: "run_research w q top_k pc =
       Inr \<lparr> query = q, report_markdown = reply, citations = [], num_sources = 0, selected = [] \<rparr>"
    if "get_default_llm_provider w pc = Inr llm"
      and "generate w llm (build_synthesis_messages q []) = Inr (Str reply)" for llm reply
    using that
    by (simp add: e synthesize_report_def build_citations_Nil new_ResearchResponse_def)
  have 3: "run_research w q top_k pc =
       Inr \<lparr> query = q, report_markdown = synthesize_fallback q [], citations = [],
             num_sources = 0, selected = [] \<rparr>"
    if "\<nexists>llm v. get_default_llm_provider w pc = Inr llm \<and>
          generate w llm (build_synthesis_messages q []) = Inr v"
  proof -
    have "synthesize_report w q [] pc = Str (synthesize_fallback q [])"
      using that by (auto simp: synthesize_report_def build_citations_Nil split: sum.splits)
    then show ?thesis by (simp add: e new_ResearchResponse_def)
  qed
  show ?thesis using 1 2 3 synthesize_fallback_nonempty [of q "[]"] by blast
qed

text \<open>
  Both searches fail and the local host answers 200 with a body that has no message:
  the report is the empty string.
\<close>

theorem run_research_empty_report:
  "retrieve_sources silent_world ''graphs'' (max_results_per_source (settings silent_world)) = [] \<and>
   run_research silent_world ''graphs'' None None =
     Inr \<lparr> query = ''graphs'', report_markdown = [], citations = [], num_sources = 0,
           selected = [] \<rparr>"
  by (simp add: retrieve_silent_world run_research_no_papers_eq synthesize_report_worlds
      new_ResearchResponse_def)

theorem run_research_no_papers_witness:
  "retrieve_sources offline_world ''graphs'' (max_results_per_source (settings offline_world)) = [] \<and>
   run_research offline_world ''graphs'' None None =
     Inr \<lparr> query = ''graphs'', report_markdown = synthesize_fallback ''graphs'' [],
           citations = [], num_sources = 0, selected = [] \<rparr> \<and>
   synthesize_fallback ''graphs'' [] \<noteq> []"
proof -
  have h: "retrieve_sources offline_world ''graphs'' (max_results_per_source (settings offline_world)) = []"
    by (rule retrieve_offline_world)
  have n: "\<nexists>llm v. get_default_llm_provider offline_world None = Inr llm \<and>
      generate offline_world llm (build_synthesis_messages ''graphs'' []) = Inr v"
    by (simp add: get_provider_default_settings settings_worlds ollama_reply_worlds)
  show ?thesis
    using run_research_no_papers [OF h, of None None] n h by blast
qed

text \<open>With a \<open>null\<close> content from the local host the call raises.\<close>

lemma run_research_null_world:
  "run_research null_world ''graphs'' None None =
   Inl (ValidationError ''report_markdown: Input should be a valid string'')"
  by (simp add: retrieve_null_world run_research_no_papers_eq synthesize_report_worlds
      new_ResearchResponse_def)

section \<open>Properties of synthesize_fallback\<close>

lemma length_background_bullets:
  "length (background_bullets sel) = min (length sel) (max 3 (length sel div 3))"
  by (simp add: background_bullets_def)

lemma background_bullets_nth:
  "i < length (background_bullets sel) \<Longrightarrow>
   background_bullets sel ! i = background_bullet (Suc i) (sel ! i)"
  by (simp add: background_bullets_def nth_enumerate_eq)

lemma length_finding_bullets: "length (finding_bullets sel) = min 5 (length sel)"
  by (simp add: finding_bullets_def min.commute)

lemma finding_bullets_nth:
  "i < length (finding_bullets sel) \<Longrightarrow> finding_bullets sel ! i = finding_bullet (Suc i)"
  by (simp add: finding_bullets_def nth_enumerate_eq)

lemma int_Suc_eq: "int (Suc i) = int i + 1"
  by simp

text \<open>
  Claim C9, as the code has it. For \<open>n\<close> selected papers the Background section has
  \<open>min n (max 3 (n div 3))\<close> bullets and the Key Findings section \<open>min 5 n\<close>; the two
  lists stand between their headings in the lines of the report. Background bullet
  \<open>i\<close> (from 0) shows the title, the index \<open>i + 1\<close> and the snippet: the abstract, or
  the title when the abstract is empty, stripped of white space at both ends and then cut
  at 600 characters, followed by three dots when the stripped text is longer. Six papers
  give 3 and 5 bullets.
\<close>

theorem synthesize_fallback_bullets:
  "length (background_bullets sel) = min (length sel) (max 3 (length sel div 3)) \<and>
   (\<forall>i < length (background_bullets sel).
      background_bullets sel ! i =
        ''- '' @ title (sel ! i) @ '' ['' @ str_int (int i + 1) @ '']: '' @
        take 600 (strip (if abstract (sel ! i) \<noteq> [] then abstract (sel ! i) else title (sel ! i))) @
        (if length (strip (if abstract (sel ! i) \<noteq> [] then abstract (sel ! i) else title (sel ! i))) > 600
         then ''...'' else []) @ nl) \<and>
   length (finding_bullets sel) = min 5 (length sel) \<and>
   (\<forall>i < length (finding_bullets sel).
      finding_bullets sel ! i =
        ''- Finding linked to ['' @ str_int (int i + 1) @ ''] derived from its abstract and title.'' @ nl) \<and>
   (\<exists>head tail. fallback_lines q sel =
      head @ [''## Background & Related Work'' @ nl] @ background_bullets sel @
      [''## Key Findings & Themes'' @ nl] @ finding_bullets sel @
      [''## Limitations & Risks'' @ nl] @ tail) \<and>
   synthesize_fallback q sel = join nl (fallback_lines q sel) \<and>
   (length sel = 6 \<longrightarrow> length (background_bullets sel) = 3 \<and> length (finding_bullets sel) = 5)"
proof -
  have 1: "length (background_bullets sel) = min (length sel) (max 3 (length sel div 3))"
    by (rule length_background_bullets)
  have 2: "background_bullets sel ! i =
        ''- '' @ title (sel ! i) @ '' ['' @ str_int (int i + 1) @ '']: '' @
        take 600 (strip (if abstract (sel ! i) \<noteq> [] then abstract (sel ! i) else title (sel ! i))) @
        (if length (strip (if abstract (sel ! i) \<noteq> [] then abstract (sel ! i) else title (sel ! i))) > 600
         then ''...'' else []) @ nl"
    if "i < length (background_bullets sel)" for i
    unfolding background_bullets_nth [OF that] background_bullet_def snippet_def int_Suc_eq
    by simp
  have 3: "length (finding_bullets sel) = min 5 (length sel)"
    by (rule length_finding_bullets)
  have 4: "finding_bullets sel ! i =
        ''- Finding linked to ['' @ str_int (int i + 1) @ ''] derived from its abstract and title.'' @ nl"
    if "i < length (finding_bullets sel)" for i
    unfolding finding_bullets_nth [OF that] finding_bullet_def int_Suc_eq by simp
  have 5: "\<exists>head tail. fallback_lines q sel =
      head @ [''## Background & Related Work'' @ nl] @ background_bullets sel @
      [''## Key Findings & Themes'' @ nl] @ finding_bullets sel @
      [''## Limitations & Risks'' @ nl] @ tail"
    unfolding fallback_lines_def Let_def
    by (intro exI [where x = "[_, _, _]"] exI) simp
  have 6: "length sel = 6 \<longrightarrow> length (background_bullets sel) = 3 \<and> length (finding_bullets sel) = 5"
    by (simp add: 1 3)
  show ?thesis
    using 1 2 3 4 5 6 by (simp add: synthesize_fallback_def)
qed

theorem synthesize_fallback_bullets_witness:
  "length six_papers = 6 \<and>
   length (background_bullets six_papers) = 3 \<and>
   length (finding_bullets six_papers) = 5 \<and>
   (0::nat) < length (background_bullets six_papers) \<and>
   background_bullets six_papers ! 0 = ''- A [1]: A'' @ nl"
proof -
  have l: "length six_papers = 6" by (simp add: six_papers_def)
  have s: "strip ''A'' = ''A''" by code_simp
  have i: "str_int 1 = ''1''" by code_simp
  have b: "0 < length (background_bullets six_papers)"
    by (simp add: length_background_bullets l)
  have "background_bullets six_papers ! 0 =
        ''- '' @ title (six_papers ! 0) @ '' ['' @ str_int (int 0 + 1) @ '']: '' @
        take 600 (strip (if abstract (six_papers ! 0) \<noteq> [] then abstract (six_papers ! 0) else title (six_papers ! 0))) @
        (if length (strip (if abstract (six_papers ! 0) \<noteq> [] then abstract (six_papers ! 0) else title (six_papers ! 0))) > 600
         then ''...'' else []) @ nl"
    using synthesize_fallback_bullets [of six_papers "''graphs''"] b by blast
  moreover have "six_papers ! 0 = example_paper ''A'' []" by (simp add: six_papers_def)
  ultimately have "background_bullets six_papers ! 0 = ''- A [1]: A'' @ nl"
    by (simp add: example_paper_def s i)
  moreover have "length (background_bullets six_papers) = 3 \<and> length (finding_bullets six_papers) = 5"
    using synthesize_fallback_bullets [of six_papers "''graphs''"] l by blast
  ultimately show ?thesis using l b by simp
qed

text \<open>
  An abstract with a leading space: the code's bullet shows the stripped text, the
  bullet of the claim's wording the abstract as it is.
\<close>

theorem background_bullet_strips:
  "background_bullets [example_paper ''T'' '' x''] = [''- T [1]: x'' @ nl] \<and>
   claimed_background_bullet 1 (example_paper ''T'' '' x'') = ''- T [1]:  x'' @ nl \<and>
   background_bullets [example_paper ''T'' '' x''] \<noteq> [claimed_background_bullet 1 (example_paper ''T'' '' x'')]"
  by code_simp

section \<open>Properties of deduplicate_papers\<close>

lemma doi_loop_without:
  "snd (foldl doi_step (seen, wd) ps) = wd @ filter (\<lambda>p. \<not> has_doi p) ps"
  by (induction ps arbitrary: seen wd)
     (auto simp: doi_step_def Let_def split: option.splits)

lemma title_loop_kept: "title_loop prev rest kept = kept @ title_loop prev rest []"
proof (induction rest arbitrary: prev kept)
  case Nil then show ?case by simp
next
  case (Cons x rest)
  obtain p toks where x: "x = (p, toks)" by (cases x)
  show ?case
    using Cons [of "prev @ [(p, toks)]" "kept @ [p]"] Cons [of "prev @ [(p, toks)]" "kept"]
      Cons [of "prev @ [(p, toks)]" "[p]"]
    by (simp add: x)
qed

lemma title_loop_index:
  "title_loop prev rest [] =
   map (\<lambda>i. fst (rest ! i))
     (filter (\<lambda>i. \<not> is_dup (prev @ take i rest) (snd (rest ! i))) [0..<length rest])"
proof (induction rest arbitrary: prev)
  case Nil then show ?case by simp
next
  case (Cons x rest)
  obtain p toks where x: "x = (p, toks)" by (cases x)
  have u: "[0..<length (x # rest)] = 0 # map Suc [0..<length rest]"
    by (simp add: upt_conv_Cons map_Suc_upt del: upt_Suc)
  have "title_loop prev (x # rest) [] =
        (if is_dup prev toks then [] else [p]) @ title_loop (prev @ [(p, toks)]) rest []"
    using title_loop_kept [of "prev @ [(p, toks)]" rest "[p]"] by (simp add: x)
  then show ?case
    unfolding u Cons [of "prev @ [(p, toks)]"]
    by (simp add: x filter_map comp_def)
qed

lemma deduplicate_papers_split:
  "deduplicate_papers ps =
   map snd (fst (doi_loop ps)) @
   title_loop [] (map (\<lambda>p. (p, tokenize (title p))) (filter (\<lambda>p. \<not> has_doi p) ps)) []"
proof -
  obtain seen wd where d: "doi_loop ps = (seen, wd)" by (cases "doi_loop ps")
  then have "wd = filter (\<lambda>p. \<not> has_doi p) ps"
    using doi_loop_without [of "[]" "[]" ps] by (simp add: doi_loop_def)
  then show ?thesis
    using title_loop_kept [of "[]" _ "map snd seen"] by (simp add: deduplicate_papers_def d)
qed

lemma is_dup_take:
  "i < length wd \<Longrightarrow>
   is_dup (take i (map (\<lambda>p. (p, tokenize (title p))) wd)) toks =
   (\<exists>j<i. 0.9 \<le> jaccard_similarity toks (tokenize (title (wd ! j))))"
proof -
  assume i: "i < length wd"
  have "is_dup (take i (map (\<lambda>p. (p, tokenize (title p))) wd)) toks =
        (\<exists>p \<in> set (take i wd). 0.9 \<le> jaccard_similarity toks (tokenize (title p)))"
    by (simp add: is_dup_def list_ex_iff take_map split_def del: divide_le_eq_numeral1 le_divide_eq_numeral1)
  also have "\<dots> = (\<exists>j<i. 0.9 \<le> jaccard_similarity toks (tokenize (title (wd ! j))))"
  proof
    assume "\<exists>p \<in> set (take i wd). 0.9 \<le> jaccard_similarity toks (tokenize (title p))"
    then obtain p where p: "p \<in> set (take i wd)"
      and s: "0.9 \<le> jaccard_similarity toks (tokenize (title p))" by blast
    from p obtain j where "j < length (take i wd)" "take i wd ! j = p"
      unfolding in_set_conv_nth by blast
    then have "j < i" "wd ! j = p" using i by simp_all
    with s show "\<exists>j<i. 0.9 \<le> jaccard_similarity toks (tokenize (title (wd ! j)))" by blast
  next
    assume "\<exists>j<i. 0.9 \<le> jaccard_similarity toks (tokenize (title (wd ! j)))"
    then obtain j where j: "j < i"
      and s: "0.9 \<le> jaccard_similarity toks (tokenize (title (wd ! j)))" by blast
    have "j < length (take i wd)" "take i wd ! j = wd ! j" using i j by simp_all
    then have "wd ! j \<in> set (take i wd)" unfolding in_set_conv_nth by blast
    with s show "\<exists>p \<in> set (take i wd). 0.9 \<le> jaccard_similarity toks (tokenize (title p))"
      by blast
  qed
  finally show ?thesis .
qed

text \<open>
  Claim C1, as the code has it. After the papers kept by DOI, \<open>deduplicate_papers\<close> lists
  the DOI-less papers \<open>wd\<close> in their order, leaving out the paper at position \<open>i\<close>
  exactly when some DOI-less paper at an earlier position \<open>j\<close>, kept or dropped, has a
  title whose token set is at Jaccard similarity 0.9 or more.
\<close>

theorem deduplicate_papers_title_phase:
  "deduplicate_papers ps =
   map snd (fst (doi_loop ps)) @
   map (\<lambda>i. filter (\<lambda>p. \<not> has_doi p) ps ! i)
     (filter (\<lambda>i. \<not> (\<exists>j<i. 0.9 \<le> jaccard_similarity
                          (tokenize (title (filter (\<lambda>p. \<not> has_doi p) ps ! i)))
                          (tokenize (title (filter (\<lambda>p. \<not> has_doi p) ps ! j)))))
        [0..<length (filter (\<lambda>p. \<not> has_doi p) ps)])"
proof -
  let ?wd = "filter (\<lambda>p. \<not> has_doi p) ps"
  let ?tt = "map (\<lambda>p. (p, tokenize (title p))) ?wd"
  have "filter (\<lambda>i. \<not> is_dup ([] @ take i ?tt) (snd (?tt ! i))) [0..<length ?tt] =
        filter (\<lambda>i. \<not> (\<exists>j<i. 0.9 \<le> jaccard_similarity (tokenize (title (?wd ! i)))
                                 (tokenize (title (?wd ! j))))) [0..<length ?wd]"
    by (rule filter_cong) (simp_all add: is_dup_take)
  moreover have "map (\<lambda>i. fst (?tt ! i)) xs = map (\<lambda>i. ?wd ! i) xs"
    if "set xs \<subseteq> {0..<length ?wd}" for xs
    using that by (intro map_cong) auto
  ultimately show ?thesis
    unfolding deduplicate_papers_split title_loop_index
    by (metis (no_types, lifting) filter_is_subset length_map set_upt)
qed

text \<open>
  The second paper is dropped for the first, the third is dropped for the second, although
  it is at 10/12 from the first, the only paper kept before it; run against the kept
  papers only, the loop would keep it.
\<close>

theorem dedup_compares_with_dropped:
  "deduplicate_papers [chain_a, chain_b, chain_c] = [chain_a] \<and>
   jaccard_similarity (tokenize (title chain_c)) (tokenize (title chain_a)) < 0.9 \<and>
   0.9 \<le> jaccard_similarity (tokenize (title chain_c)) (tokenize (title chain_b)) \<and>
   0.9 \<le> jaccard_similarity (tokenize (title chain_b)) (tokenize (title chain_a)) \<and>
   claimed_title_loop [] (map (\<lambda>p. (p, tokenize (title p))) [chain_a, chain_b, chain_c]) =
     [chain_a, chain_c]"
  by code_simp

lemma first_seen_set: "set (first_seen ks) = set ks"
  by (induction ks) auto

lemma first_seen_distinct: "distinct (first_seen ks)"
  by (induction ks) (auto simp: first_seen_set)

lemma first_seen_snoc:
  "first_seen (ks @ [k]) = (if k \<in> set ks then first_seen ks else first_seen ks @ [k])"
  by (induction ks) auto

lemma keep_longest_snoc:
  "keep_longest g (gs @ [x]) =
   (if length (abstract x) > length (abstract (keep_longest g gs)) then x else keep_longest g gs)"
  by (induction gs arbitrary: g) auto

lemma dict_set_fst:
  "map fst (dict_set kvs k v) = (if k \<in> set (map fst kvs) then map fst kvs else map fst kvs @ [k])"
proof (induction kvs)
  case Nil
  then show ?case by simp
next
  case (Cons a kvs)
  obtain k' v' where a: "a = (k', v')" by (cases a)
  show ?case
  proof (cases "k' = k")
    case True
    then show ?thesis by (simp add: a)
  next
    case False
    then show ?thesis using Cons by (simp add: a)
  qed
qed

lemma map_of_dict_set: "map_of (dict_set kvs k v) = (map_of kvs)(k \<mapsto> v)"
  by (induction kvs) (auto simp: fun_eq_iff)

lemma doi_step_fst:
  "fst (doi_step st p) =
   (if has_doi p then
      (case map_of (fst st) (doi_key_of p) of
         None \<Rightarrow> dict_set (fst st) (doi_key_of p) p
       | Some e \<Rightarrow> if length (abstract p) > length (abstract e)
                   then dict_set (fst st) (doi_key_of p) p else fst st)
    else fst st)"
  by (cases st) (simp add: doi_step_def Let_def split: option.splits)

lemma doi_loop_snoc: "doi_loop (ps @ [p]) = doi_step (doi_loop ps) p"
  by (simp add: doi_loop_def)

lemma doi_loop_inv:
  "map fst (fst (doi_loop ps)) = first_seen (map doi_key_of (filter has_doi ps)) \<and>
   (\<forall>k w. map_of (fst (doi_loop ps)) k = Some w \<longrightarrow>
      has_doi w \<and> doi_key_of w = k \<and>
      (\<exists>g gs. filter (\<lambda>p. has_doi p \<and> doi_key_of p = k) ps = g # gs \<and> w = keep_longest g gs))"
proof (induction ps rule: rev_induct)
  case Nil
  then show ?case by (simp add: doi_loop_def)
next
  case (snoc p ps)
  let ?seen = "fst (doi_loop ps)"
  let ?ks = "map doi_key_of (filter has_doi ps)"
  let ?grp = "\<lambda>k xs. filter (\<lambda>p. has_doi p \<and> doi_key_of p = k) xs"
  have J1: "map fst ?seen = first_seen ?ks" using snoc by blast
  have J2: "has_doi w \<and> doi_key_of w = k \<and> (\<exists>g gs. ?grp k ps = g # gs \<and> w = keep_longest g gs)"
    if "map_of ?seen k = Some w" for k w using snoc that by blast
  have keys: "set (map fst ?seen) = set ?ks" by (simp add: J1 first_seen_set)
  have grp_empty: "?grp k ps = []" if "k \<notin> set ?ks" for k
  proof -
    have "\<not> (has_doi q \<and> doi_key_of q = k)" if "q \<in> set ps" for q
    proof
      assume "has_doi q \<and> doi_key_of q = k"
      then have "k \<in> set ?ks" using that by force
      with \<open>k \<notin> set ?ks\<close> show False by blast
    qed
    then show ?thesis unfolding filter_empty_conv by blast
  qed
  show ?case
  proof (cases "has_doi p")
    case False
    have s: "fst (doi_loop (ps @ [p])) = ?seen"
      using False by (simp add: doi_loop_snoc doi_step_fst)
    have f: "filter has_doi (ps @ [p]) = filter has_doi ps" using False by simp
    have g: "?grp k (ps @ [p]) = ?grp k ps" for k using False by simp
    show ?thesis unfolding s f g using snoc by blast
  next
    case True
    let ?k0 = "doi_key_of p"
    show ?thesis
    proof (cases "map_of ?seen ?k0")
      case None
      then have nk: "?k0 \<notin> set ?ks" using keys by (simp add: map_of_eq_None_iff)
      have s: "fst (doi_loop (ps @ [p])) = dict_set ?seen ?k0 p"
        using True None by (simp add: doi_loop_snoc doi_step_fst)
      have a: "map fst (dict_set ?seen ?k0 p) = first_seen (map doi_key_of (filter has_doi (ps @ [p])))"
        using True nk keys J1 by (simp add: dict_set_fst first_seen_snoc)
      have b: "has_doi w \<and> doi_key_of w = k \<and>
               (\<exists>g gs. ?grp k (ps @ [p]) = g # gs \<and> w = keep_longest g gs)"
        if "map_of (dict_set ?seen ?k0 p) k = Some w" for k w
      proof (cases "k = ?k0")
        case True
        then have "w = p" using that by (simp add: map_of_dict_set)
        then show ?thesis using True \<open>has_doi p\<close> grp_empty [OF nk] by simp
      next
        case False
        then have "map_of ?seen k = Some w" using that by (simp add: map_of_dict_set)
        from J2 [OF this] show ?thesis using False by auto
      qed
      show ?thesis unfolding s using a b by blast
    next
      case (Some e)
      then have ik: "?k0 \<in> set ?ks" using keys by (metis map_of_eq_None_iff option.distinct(1) set_map)
      from J2 [OF Some] obtain g gs where e: "has_doi e" "doi_key_of e = ?k0"
        and g: "?grp ?k0 ps = g # gs" and eg: "e = keep_longest g gs" by blast
      have g': "?grp ?k0 (ps @ [p]) = g # (gs @ [p])" using g True by simp
      have a: "map fst ?seen = first_seen (map doi_key_of (filter has_doi (ps @ [p])))"
        using True ik J1 by (simp add: first_seen_snoc)
      show ?thesis
      proof (cases "length (abstract p) > length (abstract e)")
        case longer: True
        have s: "fst (doi_loop (ps @ [p])) = dict_set ?seen ?k0 p"
          using True Some longer by (simp add: doi_loop_snoc doi_step_fst)
        have a': "map fst (dict_set ?seen ?k0 p) = first_seen (map doi_key_of (filter has_doi (ps @ [p])))"
          using a ik keys by (simp add: dict_set_fst)
        have b: "has_doi w \<and> doi_key_of w = k \<and>
               (\<exists>g gs. ?grp k (ps @ [p]) = g # gs \<and> w = keep_longest g gs)"
          if "map_of (dict_set ?seen ?k0 p) k = Some w" for k w
        proof (cases "k = ?k0")
          case True
          then have "w = p" using that by (simp add: map_of_dict_set)
          moreover have "keep_longest g (gs @ [p]) = p" using longer eg by (simp add: keep_longest_snoc)
          ultimately show ?thesis using True \<open>has_doi p\<close> g' by simp
        next
          case False
          then have "map_of ?seen k = Some w" using that by (simp add: map_of_dict_set)
          from J2 [OF this] show ?thesis using False by auto
        qed
        show ?thesis unfolding s using a' b by blast
      next
        case notlonger: False
        have s: "fst (doi_loop (ps @ [p])) = ?seen"
          using True Some notlonger by (simp add: doi_loop_snoc doi_step_fst)
        have b: "has_doi w \<and> doi_key_of w = k \<and>
               (\<exists>g gs. ?grp k (ps @ [p]) = g # gs \<and> w = keep_longest g gs)"
          if "map_of ?seen k = Some w" for k w
        proof (cases "k = ?k0")
          case True
          then have "w = e" using that Some by simp
          moreover have "keep_longest g (gs @ [p]) = e" using notlonger eg by (simp add: keep_longest_snoc)
          ultimately show ?thesis using True e g' by simp
        next
          case False
          from J2 [OF that] show ?thesis using False by auto
        qed
        show ?thesis unfolding s using a b by blast
      qed
    qed
  qed
qed

lemma doi_key_of_claimed: "doi_key_of p = claimed_key p"
  by (simp add: doi_key_def claimed_key_def str_or_def split: option.splits)

lemma doi_loop_survivors: "map snd (fst (doi_loop ps)) = claimed_doi_phase ps"
proof -
  let ?seen = "fst (doi_loop ps)"
  let ?K = "first_seen (map doi_key_of (filter has_doi ps))"
  let ?W = "\<lambda>k. case filter (\<lambda>p. has_doi p \<and> doi_key_of p = k) ps of
                   [] \<Rightarrow> [] | g # gs \<Rightarrow> [keep_longest g gs]"
  have K: "map fst ?seen = ?K" using doi_loop_inv by blast
  then have d: "distinct (map fst ?seen)" by (simp add: first_seen_distinct)
  have w: "?W (fst kv) = [snd kv]" if "kv \<in> set ?seen" for kv
  proof -
    have "map_of ?seen (fst kv) = Some (snd kv)" using that d by simp
    then obtain g gs where "filter (\<lambda>p. has_doi p \<and> doi_key_of p = fst kv) ps = g # gs"
      and "snd kv = keep_longest g gs" using doi_loop_inv by blast
    then show ?thesis by simp
  qed
  have "concat (map ?W (map fst ?seen)) = concat (map (\<lambda>kv. [snd kv]) ?seen)"
    unfolding map_map comp_def using w by (metis (no_types, lifting) map_cong)
  also have "\<dots> = map snd ?seen" by (induction ?seen) auto
  finally have "map snd ?seen = concat (map ?W ?K)" unfolding K by simp
  then show ?thesis unfolding claimed_doi_phase_def doi_key_of_claimed .
qed

lemma title_loop_subseq: "subseq (title_loop prev rest []) (map fst rest)"
proof (induction rest arbitrary: prev)
  case Nil
  then show ?case by simp
next
  case (Cons x rest)
  obtain p toks where x: "x = (p, toks)" by (cases x)
  have "title_loop prev (x # rest) [] =
        (if is_dup prev toks then [] else [p]) @ title_loop (prev @ [(p, toks)]) rest []"
    using title_loop_kept [of "prev @ [(p, toks)]" rest "[p]"] by (simp add: x)
  then show ?case using Cons [of "prev @ [(p, toks)]"] by (auto simp: x)
qed

text \<open>
  Claim C5. \<open>deduplicate_papers\<close> returns, first, one paper for every key, the key of a
  paper being its DOI lower-cased and stripped of white space at both ends, in the order
  in which the keys are first seen: the paper left after a run over the papers of that key
  in which the first is kept and a later one replaces the kept one exactly when its
  abstract is strictly longer; the survivor is one of the input papers, unchanged. Then
  follow DOI-less papers, a subsequence of the DOI-less papers of the input in their
  order.
\<close>

theorem deduplicate_papers_doi_phase:
  "\<exists>kept_titles.
     deduplicate_papers ps =
       concat (map (\<lambda>k. case filter (\<lambda>p. has_doi p \<and>
                                          strip (lower (case doi p of None \<Rightarrow> [] | Some d \<Rightarrow> d)) = k) ps of
                          [] \<Rightarrow> []
                        | g # gs \<Rightarrow> [keep_longest g gs])
                   (first_seen (map (\<lambda>p. strip (lower (case doi p of None \<Rightarrow> [] | Some d \<Rightarrow> d)))
                                    (filter has_doi ps)))) @
       kept_titles \<and>
     subseq kept_titles (filter (\<lambda>p. \<not> has_doi p) ps)"
proof -
  let ?tt = "map (\<lambda>p. (p, tokenize (title p))) (filter (\<lambda>p. \<not> has_doi p) ps)"
  have "subseq (title_loop [] ?tt []) (map fst ?tt)" by (rule title_loop_subseq)
  moreover have "map fst ?tt = filter (\<lambda>p. \<not> has_doi p) ps" by (simp add: comp_def)
  moreover have "deduplicate_papers ps = claimed_doi_phase ps @ title_loop [] ?tt []"
    using deduplicate_papers_split [of ps] doi_loop_survivors [of ps] by simp
  ultimately show ?thesis
    unfolding claimed_doi_phase_def claimed_key_def by auto
qed

lemma deduplicate_doi_papers:
  "deduplicate_papers doi_papers = [doi_papers ! 2, doi_papers ! 3, doi_papers ! 1]"
  by code_simp

lemma doi_papers_keys:
  "map (\<lambda>p. strip (lower (case doi p of None \<Rightarrow> [] | Some d \<Rightarrow> d))) (filter has_doi doi_papers) =
     [''10.1/abc'', ''10.1/abc'', ''10.2/x'']"
  "filter (\<lambda>p. \<not> has_doi p) doi_papers = [doi_papers ! 1]"
  "concat (map (\<lambda>k. case filter (\<lambda>p. has_doi p \<and>
                                    strip (lower (case doi p of None \<Rightarrow> [] | Some d \<Rightarrow> d)) = k) doi_papers of
                    [] \<Rightarrow> []
                  | g # gs \<Rightarrow> [keep_longest g gs])
             (first_seen (map (\<lambda>p. strip (lower (case doi p of None \<Rightarrow> [] | Some d \<Rightarrow> d)))
                              (filter has_doi doi_papers)))) =
     [doi_papers ! 2, doi_papers ! 3]"
  by code_simp+

text \<open>
  On \<open>doi_papers\<close> the DOIs \<open>" 10.1/ABC "\<close> and \<open>"10.1/abc"\<close> make one key, and the
  paper with the longer abstract is the one kept for it.
\<close>

theorem deduplicate_papers_doi_phase_witness:
  "map (\<lambda>p. strip (lower (case doi p of None \<Rightarrow> [] | Some d \<Rightarrow> d))) (filter has_doi doi_papers) =
     [''10.1/abc'', ''10.1/abc'', ''10.2/x''] \<and>
   take 2 (deduplicate_papers doi_papers) = [doi_papers ! 2, doi_papers ! 3] \<and>
   subseq (drop 2 (deduplicate_papers doi_papers)) [doi_papers ! 1]"
proof -
  obtain kept_titles where
    d: "deduplicate_papers doi_papers = [doi_papers ! 2, doi_papers ! 3] @ kept_titles"
    and s: "subseq kept_titles [doi_papers ! 1]"
    using deduplicate_papers_doi_phase [of doi_papers]
    unfolding doi_papers_keys(3) doi_papers_keys(2) by blast
  show ?thesis using s by (simp add: d doi_papers_keys(1))
qed

section \<open>Properties of score_paper\<close>

lemma round_even_err: "\<bar>of_int (round_even r) - r\<bar> \<le> 1 / 2"
  unfolding round_even_def Let_def by (auto; linarith)

lemma round_even_int: "round_even (of_int n) = n"
  by (simp add: round_even_def)

lemma round_even_nonneg: "0 \<le> r \<Longrightarrow> 0 \<le> round_even r"
  unfolding round_even_def Let_def by (auto; linarith)

lemma fl_zero: "fl 0 = 0"
  by (simp add: fl_def)

lemma fl_nonneg: "0 \<le> x \<Longrightarrow> 0 \<le> fl x"
  by (auto simp: fl_def Let_def intro!: mult_nonneg_nonneg round_even_nonneg divide_nonneg_nonneg)

lemma pow2_floor_log_le:
  assumes "x \<noteq> 0"
  shows "2 powr (of_int \<lfloor>log 2 \<bar>x\<bar>\<rfloor>) \<le> \<bar>x\<bar>"
proof -
  have "2 powr (of_int \<lfloor>log 2 \<bar>x\<bar>\<rfloor>) \<le> 2 powr (log 2 \<bar>x\<bar>)"
    by (rule powr_mono) simp_all
  also have "\<dots> = \<bar>x\<bar>" using assms by simp
  finally show ?thesis .
qed

lemma fl_err: "\<bar>fl x - x\<bar> \<le> \<bar>x\<bar> / 2 ^ 53"
proof (cases "x = 0")
  case True
  then show ?thesis by (simp add: fl_def)
next
  case False
  define e where "e = \<lfloor>log 2 \<bar>x\<bar>\<rfloor>"
  define u :: real where "u = 2 powr (of_int e - 52)"
  have u0: "0 < u" by (simp add: u_def)
  have ue: "u = 2 powr (of_int e) / 2 ^ 52"
    unfolding u_def by (simp add: powr_diff)
  have f: "fl x = of_int (round_even (x / u)) * u"
    using False by (simp add: fl_def Let_def e_def u_def)
  have "\<bar>fl x - x\<bar> = u * \<bar>of_int (round_even (x / u)) - x / u\<bar>"
  proof -
    have "fl x - x = u * (of_int (round_even (x / u)) - x / u)"
      using u0 by (simp add: f field_simps)
    then show ?thesis using u0 by (simp add: abs_mult)
  qed
  also have "\<dots> \<le> u * (1 / 2)"
    using u0 round_even_err [of "x / u"] by (intro mult_left_mono) simp_all
  also have "\<dots> = 2 powr (of_int e) / 2 ^ 53" by (simp add: ue)
  also have "\<dots> \<le> \<bar>x\<bar> / 2 ^ 53"
    using pow2_floor_log_le [OF False] by (simp add: e_def divide_right_mono)
  finally show ?thesis .
qed

lemma fl_upper: "fl x \<le> x + \<bar>x\<bar> / 2 ^ 53"
proof -
  have "fl x - x \<le> \<bar>fl x - x\<bar>" by arith
  also have "\<dots> \<le> \<bar>x\<bar> / 2 ^ 53" by (rule fl_err)
  finally show ?thesis by simp
qed

lemma fl_lower: "x - \<bar>x\<bar> / 2 ^ 53 \<le> fl x"
proof -
  have "x - fl x \<le> \<bar>fl x - x\<bar>" by arith
  also have "\<dots> \<le> \<bar>x\<bar> / 2 ^ 53" by (rule fl_err)
  finally show ?thesis by simp
qed

lemma fl_one_minus:
  assumes "0 \<le> d" "d < 1 / 2 ^ 54"
  shows "fl (1 - d) = 1"
proof (cases "d = 0")
  case True
  have "fl 1 = 1"
    by (simp add: fl_def Let_def powr_minus round_even_int [of "2 ^ 52", simplified])
  then show ?thesis using True by simp
next
  case False
  then have d: "0 < d" using assms by simp
  let ?x = "1 - d"
  have x: "1 / 2 \<le> ?x" "?x < 1" using assms d by (simp_all add: field_simps) 
  have l: "\<lfloor>log 2 \<bar>?x\<bar>\<rfloor> = - 1"
  proof (rule floor_unique)
    have "log 2 (1 / 2) \<le> log 2 ?x" using x by (subst log_le_cancel_iff) simp_all
    moreover have "log 2 (1 / 2) = - 1" by (simp add: log_divide)
    ultimately show "of_int (- 1) \<le> log 2 \<bar>?x\<bar>" using x by simp
    have "log 2 ?x < 0" using x by simp
    then show "log 2 \<bar>?x\<bar> < of_int (- 1) + 1" using x by simp
  qed
  have u: "(2::real) powr (of_int (- 1) - 52) = 1 / 2 ^ 53"
    by (simp add: powr_minus field_simps)
  have q: "?x / (1 / 2 ^ 53) = 2 ^ 53 - d * 2 ^ 53" by (simp add: field_simps)
  have dd: "d * 2 ^ 53 < 1 / 2" using assms by (simp add: field_simps)
  have fq: "\<lfloor>(2::real) ^ 53 - d * 2 ^ 53\<rfloor> = 2 ^ 53 - 1"
    by (rule floor_unique) (use d dd in simp_all)
  have r: "round_even (2 ^ 53 - d * 2 ^ 53) = 2 ^ 53"
    unfolding round_even_def Let_def fq using dd d by simp
  have "?x \<noteq> 0" using x by simp
  then show ?thesis
    by (simp only: fl_def if_False Let_def l u q r) simp
qed

lemma exp_neg_nat_le: "exp (- real n) \<le> 1 / 2 ^ n"
proof -
  have "(2::real) \<le> exp 1" using exp_ge_add_one_self [of 1] by simp
  then have "(2::real) ^ n \<le> exp 1 ^ n" by (intro power_mono) simp_all
  also have "\<dots> = exp (real n)" by (simp add: exp_of_nat_mult [symmetric])
  finally have "(2::real) ^ n \<le> exp (real n)" .
  then have "1 / exp (real n) \<le> 1 / 2 ^ n" by (intro divide_left_mono) simp_all
  then show ?thesis by (simp add: exp_minus field_simps)
qed

lemma norm_rel_saturates:
  assumes "197 \<le> r"
  shows "fl (1 - fl (exp (fl (- fl 0.3 * real r)))) = 1"
proof -
  have c: "0.29 \<le> fl 0.3" using fl_lower [of "0.3"] by simp
  let ?y = "- fl 0.3 * real r"
  have r: "197 \<le> real r" using assms by simp
  have y: "?y \<le> - 57" 
  proof -
    have "0.29 * 197 \<le> fl 0.3 * real r" using c r by (intro mult_mono) simp_all
    then show ?thesis by simp
  qed
  have ay: "\<bar>?y\<bar> = - ?y" using y by linarith
  have "fl ?y \<le> ?y + \<bar>?y\<bar> / 2 ^ 53" by (rule fl_upper)
  also have "\<dots> = ?y * (1 - 1 / 2 ^ 53)" unfolding ay by (simp add: field_simps)
  finally have "fl ?y \<le> ?y * (1 - 1 / 2 ^ 53)" .
  also have "\<dots> \<le> - 57 * (1 - 1 / 2 ^ 53)" using y by (intro mult_right_mono) simp_all
  also have "\<dots> \<le> - 56" by simp
  finally have x: "fl ?y \<le> - real 56" by simp
  have "exp (fl ?y) \<le> exp (- real 56)" using x by simp
  also have "\<dots> \<le> 1 / 2 ^ 56" by (rule exp_neg_nat_le)
  finally have e: "exp (fl ?y) \<le> 1 / 2 ^ 56" .
  have "fl (exp (fl ?y)) \<le> exp (fl ?y) + \<bar>exp (fl ?y)\<bar> / 2 ^ 53"
    by (rule fl_upper)
  also have "\<dots> \<le> 2 * exp (fl ?y)" by (simp add: field_simps)
  also have "\<dots> \<le> 2 * (1 / 2 ^ 56)" using e by simp
  also have "\<dots> < 1 / 2 ^ 54" by simp
  finally have "fl (exp (fl ?y)) < 1 / 2 ^ 54" .
  moreover have "0 \<le> fl (exp (fl ?y))" by (rule fl_nonneg) simp
  ultimately show ?thesis by (rule fl_one_minus [rotated])
qed


lemma round_even_floor: "\<lfloor>r\<rfloor> \<le> round_even r \<and> round_even r \<le> \<lfloor>r\<rfloor> + 1"
  by (simp add: round_even_def Let_def)

lemma round_even_mono: "r \<le> s \<Longrightarrow> round_even r \<le> round_even s"
proof (cases "\<lfloor>r\<rfloor> = \<lfloor>s\<rfloor>")
  case True
  assume "r \<le> s"
  then show ?thesis unfolding round_even_def Let_def True by auto
next
  case False
  assume "r \<le> s"
  then have "\<lfloor>r\<rfloor> < \<lfloor>s\<rfloor>" using False floor_mono [of r s] by linarith
  then show ?thesis using round_even_floor [of r] round_even_floor [of s] by linarith
qed

lemma round_even_minus: "round_even (- r) = - round_even r"
proof (cases "r = of_int \<lfloor>r\<rfloor>")
  case True
  then have "round_even r = \<lfloor>r\<rfloor>" using round_even_int [of "\<lfloor>r\<rfloor>"] by simp
  moreover have "round_even (- r) = - \<lfloor>r\<rfloor>"
    using round_even_int [of "- \<lfloor>r\<rfloor>"] True by (metis of_int_minus)
  ultimately show ?thesis by simp
next
  case False
  then have lt: "of_int \<lfloor>r\<rfloor> < r" using of_int_floor_le [of r] by linarith
  have f: "\<lfloor>- r\<rfloor> = - \<lfloor>r\<rfloor> - 1"
  proof (rule floor_unique)
    show "of_int (- \<lfloor>r\<rfloor> - 1) \<le> - r" by simp linarith
    show "- r < of_int (- \<lfloor>r\<rfloor> - 1) + 1" using lt by simp
  qed
  show ?thesis
    unfolding round_even_def Let_def f using lt by (auto simp: algebra_simps)
qed

lemma fl_minus: "fl (- x) = - fl x"
  by (simp add: fl_def Let_def round_even_minus)

lemma floor_log_less:
  assumes "0 < x"
  shows "x < 2 powr (of_int \<lfloor>log 2 x\<rfloor> + 1)"
proof -
  have "log 2 x < of_int \<lfloor>log 2 x\<rfloor> + 1" by linarith
  then have "2 powr (log 2 x) < 2 powr (of_int \<lfloor>log 2 x\<rfloor> + 1)"
    by (intro powr_less_mono) simp_all
  then show ?thesis using assms by simp
qed

lemma fl_pos_bounds:
  assumes "0 < x"
  shows "2 powr (of_int \<lfloor>log 2 x\<rfloor>) \<le> fl x \<and> fl x \<le> 2 powr (of_int \<lfloor>log 2 x\<rfloor> + 1)"
proof -
  define e where "e = \<lfloor>log 2 x\<rfloor>"
  define u :: real where "u = 2 powr (of_int e - 52)"
  have u0: "0 < u" by (simp add: u_def)
  have f: "fl x = of_int (round_even (x / u)) * u"
    using assms by (simp add: fl_def Let_def e_def u_def)
  have lo: "2 powr (of_int e) = of_int (2 ^ 52) * u"
    by (simp add: u_def powr_diff)
  have hi: "2 powr (of_int e + 1) = of_int (2 ^ 53) * u"
    by (simp add: u_def powr_diff powr_add)
  have "2 powr (of_int e) \<le> x"
    using pow2_floor_log_le [of x] assms by (simp add: e_def)
  then have "of_int (2 ^ 52) \<le> x / u" using u0 by (simp add: lo pos_le_divide_eq)
  then have "round_even (of_int (2 ^ 52)) \<le> round_even (x / u)" by (rule round_even_mono)
  then have a: "(2 ^ 52 :: int) \<le> round_even (x / u)" by (simp only: round_even_int)
  have "x \<le> 2 powr (of_int e + 1)"
    using floor_log_less [OF assms] by (simp add: e_def)
  then have "x / u \<le> of_int (2 ^ 53)" using u0 by (simp add: hi pos_divide_le_eq)
  then have "round_even (x / u) \<le> round_even (of_int (2 ^ 53))" by (rule round_even_mono)
  then have b: "round_even (x / u) \<le> (2 ^ 53 :: int)" by (simp only: round_even_int)
  have a': "(of_int (2 ^ 52) :: real) \<le> of_int (round_even (x / u))"
    using a of_int_le_iff by blast
  have b': "(of_int (round_even (x / u)) :: real) \<le> of_int (2 ^ 53)"
    using b of_int_le_iff by blast
  have u1: "0 \<le> u" using u0 by simp
  have "of_int (2 ^ 52) * u \<le> of_int (round_even (x / u)) * u"
    by (rule mult_right_mono [OF a' u1])
  moreover have "of_int (round_even (x / u)) * u \<le> of_int (2 ^ 53) * u"
    by (rule mult_right_mono [OF b' u1])
  ultimately show ?thesis unfolding f lo hi e_def [symmetric] by blast
qed

lemma fl_mono_pos:
  assumes "0 < x" "x \<le> y"
  shows "fl x \<le> fl y"
proof -
  have y: "0 < y" using assms by simp
  have le: "\<lfloor>log 2 x\<rfloor> \<le> \<lfloor>log 2 y\<rfloor>"
    using assms by (intro floor_mono) simp
  show ?thesis
  proof (cases "\<lfloor>log 2 x\<rfloor> = \<lfloor>log 2 y\<rfloor>")
    case True
    define u :: real where "u = 2 powr (of_int \<lfloor>log 2 y\<rfloor> - 52)"
    have u0: "0 < u" by (simp add: u_def)
    have "x / u \<le> y / u" using assms u0 by (simp add: divide_right_mono)
    then have "round_even (x / u) \<le> round_even (y / u)" by (rule round_even_mono)
    then have "of_int (round_even (x / u)) * u \<le> of_int (round_even (y / u)) * u"
      using u0 by (intro mult_right_mono) simp_all
    then show ?thesis using assms y by (simp add: fl_def Let_def True u_def)
  next
    case False
    then have "of_int \<lfloor>log 2 x\<rfloor> + 1 \<le> (of_int \<lfloor>log 2 y\<rfloor> :: real)"
      using le by linarith
    then have "2 powr (of_int \<lfloor>log 2 x\<rfloor> + 1) \<le> (2::real) powr (of_int \<lfloor>log 2 y\<rfloor>)"
      by (intro powr_mono) simp_all
    then show ?thesis
      using fl_pos_bounds [OF assms(1)] fl_pos_bounds [OF y] by linarith
  qed
qed

lemma fl_pos: "0 < x \<Longrightarrow> 0 < fl x"
  using fl_pos_bounds [of x] powr_gt_zero [of 2 "of_int \<lfloor>log 2 x\<rfloor>"] by linarith

lemma fl_mono:
  assumes "x \<le> y"
  shows "fl x \<le> fl y"
proof -
  consider "0 < x" | "y < 0" | "x \<le> 0" "0 \<le> y" using assms by linarith
  then show ?thesis
  proof cases
    case 1
    then show ?thesis using assms by (rule fl_mono_pos)
  next
    case 2
    then have "fl (- y) \<le> fl (- x)" using assms by (intro fl_mono_pos) simp_all
    then show ?thesis by (simp add: fl_minus)
  next
    case 3
    have "0 \<le> fl (- x)" using 3 by (intro fl_nonneg) simp
    then have "fl x \<le> 0" by (simp add: fl_minus)
    moreover have "0 \<le> fl y" using 3 by (intro fl_nonneg)
    ultimately show ?thesis by simp
  qed
qed

lemma fl_one: "fl 1 = 1"
  using fl_one_minus [of 0] by simp

lemma fl_quarter: "fl (1 / 4) = 1 / 4"
proof -
  have l: "\<lfloor>log 2 \<bar>1 / 4 :: real\<bar>\<rfloor> = - 2"
  proof -
    have "log 2 (1 / 4 :: real) = - log 2 (2 ^ 2)" by (simp add: log_divide)
    also have "\<dots> = - 2" by (simp only: log_nat_power) simp
    finally show ?thesis by simp
  qed
  have u: "(2::real) powr (of_int (- 2) - 52) = 1 / 2 ^ 54"
    by (simp add: powr_minus field_simps)
  have q: "(1 / 4 :: real) / (1 / 2 ^ 54) = of_int (2 ^ 52)" by simp
  show ?thesis
    by (simp only: fl_def Let_def l u q round_even_int) simp
qed

lemma relevance_eq:
  "relevance q p =
   2 * card (tokenize q \<inter> tokenize (title p)) + card (tokenize q \<inter> tokenize (abstract p))"
  by (simp add: relevance_def Let_def)

lemma year_eff_eq:
  "year_eff p = max 1990 (min 2030 (case year p of None \<Rightarrow> 1990 | Some y \<Rightarrow> y))"
  by (auto simp: year_eff_def int_or_def Let_def max_def min_def split: option.splits)

lemma score_formula_eq:
  "score_formula q p =
   0.75 * (1 - exp (- 0.3 * real (relevance q p))) +
   0.25 * (real_of_int (year_eff p - 1990) / 40)"
  by (simp add: score_formula_def score_paper_with_def Let_def)

lemma score_formula_mono:
  assumes "year_eff p' = year_eff p" "relevance q p < relevance q p'"
  shows "score_formula q p < score_formula q p'"
proof -
  have "- 0.3 * real (relevance q p') < - 0.3 * real (relevance q p)"
    using assms(2) by simp
  then have "exp (- 0.3 * real (relevance q p')) < exp (- 0.3 * real (relevance q p))"
    by (simp only: exp_less_cancel_iff)
  then show ?thesis unfolding score_formula_eq assms(1) by simp
qed

lemma score_paper_mono:
  assumes y: "year_eff p' = year_eff p" and r: "relevance q p \<le> relevance q p'"
  shows "score_paper q p \<le> score_paper q p'"
proof -
  let ?a = "real (relevance q p)" and ?b = "real (relevance q p')"
  let ?rec = "fl (0.25 * fl (real_of_int (year_eff p - 1990) / real_of_int (2030 - 1990)))"
  have c: "0 \<le> fl 0.3" by (rule fl_nonneg) simp
  have ab: "?a \<le> ?b" using r by simp
  have "fl 0.3 * ?a \<le> fl 0.3 * ?b" by (rule mult_left_mono [OF ab c])
  then have "- fl 0.3 * ?b \<le> - fl 0.3 * ?a" by simp
  then have "fl (- fl 0.3 * ?b) \<le> fl (- fl 0.3 * ?a)" by (rule fl_mono)
  then have "exp (fl (- fl 0.3 * ?b)) \<le> exp (fl (- fl 0.3 * ?a))" by simp
  then have "fl (exp (fl (- fl 0.3 * ?b))) \<le> fl (exp (fl (- fl 0.3 * ?a)))" by (rule fl_mono)
  then have "1 - fl (exp (fl (- fl 0.3 * ?a))) \<le> 1 - fl (exp (fl (- fl 0.3 * ?b)))" by simp
  then have "fl (1 - fl (exp (fl (- fl 0.3 * ?a)))) \<le> fl (1 - fl (exp (fl (- fl 0.3 * ?b))))"
    by (rule fl_mono)
  then have "0.75 * fl (1 - fl (exp (fl (- fl 0.3 * ?a)))) \<le>
             0.75 * fl (1 - fl (exp (fl (- fl 0.3 * ?b))))" by simp
  then have "fl (0.75 * fl (1 - fl (exp (fl (- fl 0.3 * ?a))))) \<le>
             fl (0.75 * fl (1 - fl (exp (fl (- fl 0.3 * ?b)))))" by (rule fl_mono)
  then have "fl (0.75 * fl (1 - fl (exp (fl (- fl 0.3 * ?a))))) + ?rec \<le>
             fl (0.75 * fl (1 - fl (exp (fl (- fl 0.3 * ?b))))) + ?rec" by simp
  then have "fl (fl (0.75 * fl (1 - fl (exp (fl (- fl 0.3 * ?a))))) + ?rec) \<le>
             fl (fl (0.75 * fl (1 - fl (exp (fl (- fl 0.3 * ?b))))) + ?rec)" by (rule fl_mono)
  then show ?thesis unfolding score_paper_def score_paper_with_def Let_def y .
qed

text \<open>
  Claim C7, as the code has it. With \<open>r = 2 |q \<inter> t| + |q \<inter> a|\<close> and the year clamped to
  1990..2030 (1990 when missing), \<open>score_paper\<close> is the expression
  \<open>0.75 (1 - e^(-0.3 r)) + 0.25 (year - 1990) / 40\<close> with every operation rounded to a
  double. For a fixed abstract and year the score that the code computes does not decrease
  when \<open>|q \<inter> t|\<close> grows, and the exact value of the expression increases strictly. The
  recency term is 0 for every year up to 1990 and for a missing year, and 0.25 for every
  year from 2030, exactly and after rounding.
\<close>

theorem score_paper_formula:
  "relevance q p =
     2 * card (tokenize q \<inter> tokenize (title p)) + card (tokenize q \<inter> tokenize (abstract p)) \<and>
   year_eff p = max 1990 (min 2030 (case year p of None \<Rightarrow> 1990 | Some y \<Rightarrow> y)) \<and>
   score_formula q p =
     0.75 * (1 - exp (- 0.3 * real (relevance q p))) +
     0.25 * (real_of_int (year_eff p - 1990) / 40) \<and>
   score_paper q p =
     fl (fl (0.75 * fl (1 - fl (exp (fl (- fl 0.3 * real (relevance q p)))))) +
         fl (0.25 * fl (real_of_int (year_eff p - 1990) / 40))) \<and>
   (abstract p' = abstract p \<and> year p' = year p \<and>
    card (tokenize q \<inter> tokenize (title p)) < card (tokenize q \<inter> tokenize (title p')) \<longrightarrow>
      score_formula q p < score_formula q p') \<and>
   (abstract p' = abstract p \<and> year p' = year p \<and>
    card (tokenize q \<inter> tokenize (title p)) \<le> card (tokenize q \<inter> tokenize (title p')) \<longrightarrow>
      score_paper q p \<le> score_paper q p') \<and>
   ((case year p of None \<Rightarrow> True | Some y \<Rightarrow> y \<le> 1990) \<longrightarrow>
      0.25 * (real_of_int (year_eff p - 1990) / 40) = 0 \<and>
      fl (0.25 * fl (real_of_int (year_eff p - 1990) / 40)) = 0) \<and>
   ((case year p of None \<Rightarrow> False | Some y \<Rightarrow> 2030 \<le> y) \<longrightarrow>
      0.25 * (real_of_int (year_eff p - 1990) / 40) = 0.25 \<and>
      fl (0.25 * fl (real_of_int (year_eff p - 1990) / 40)) = 0.25)"
proof -
  have 4: "score_paper q p =
     fl (fl (0.75 * fl (1 - fl (exp (fl (- fl 0.3 * real (relevance q p)))))) +
         fl (0.25 * fl (real_of_int (year_eff p - 1990) / 40)))"
    by (simp add: score_paper_def score_paper_with_def Let_def)
  have 5: "score_formula q p < score_formula q p'"
    if "abstract p' = abstract p \<and> year p' = year p \<and>
        card (tokenize q \<inter> tokenize (title p)) < card (tokenize q \<inter> tokenize (title p'))"
  proof (rule score_formula_mono)
    show "year_eff p' = year_eff p" using that by (simp add: year_eff_def)
    show "relevance q p < relevance q p'" using that by (simp add: relevance_eq)
  qed
  have 8: "score_paper q p \<le> score_paper q p'"
    if "abstract p' = abstract p \<and> year p' = year p \<and>
        card (tokenize q \<inter> tokenize (title p)) \<le> card (tokenize q \<inter> tokenize (title p'))"
  proof (rule score_paper_mono)
    show "year_eff p' = year_eff p" using that by (simp add: year_eff_def)
    show "relevance q p \<le> relevance q p'" using that by (simp add: relevance_eq)
  qed
  have 6: "0.25 * (real_of_int (year_eff p - 1990) / 40) = 0 \<and>
           fl (0.25 * fl (real_of_int (year_eff p - 1990) / 40)) = 0"
    if "case year p of None \<Rightarrow> True | Some y \<Rightarrow> y \<le> 1990"
  proof -
    have "year_eff p = 1990" using that by (auto simp: year_eff_eq split: option.splits)
    then show ?thesis by (simp add: fl_zero)
  qed
  have 7: "0.25 * (real_of_int (year_eff p - 1990) / 40) = 0.25 \<and>
           fl (0.25 * fl (real_of_int (year_eff p - 1990) / 40)) = 0.25"
    if "case year p of None \<Rightarrow> False | Some y \<Rightarrow> 2030 \<le> y"
  proof -
    have "year_eff p = 2030" using that by (auto simp: year_eff_eq split: option.splits)
    then show ?thesis using fl_quarter by (simp add: fl_one)
  qed
  show ?thesis
    using relevance_eq [of q p] year_eff_eq [of p] score_formula_eq [of q p] 4 5 6 7 8 by blast
qed

lemma short_overlap:
  "card (tokenize ''graph'' \<inter> tokenize (title (example_paper ''trees'' []))) = 0"
  "card (tokenize ''graph'' \<inter> tokenize (title (example_paper ''graph'' []))) = 1"
  by code_simp+

theorem score_paper_formula_witness:
  "abstract (example_paper ''graph'' []) = abstract (example_paper ''trees'' []) \<and>
   year (example_paper ''graph'' []) = year (example_paper ''trees'' []) \<and>
   card (tokenize ''graph'' \<inter> tokenize (title (example_paper ''trees'' []))) <
   card (tokenize ''graph'' \<inter> tokenize (title (example_paper ''graph'' []))) \<and>
   score_formula ''graph'' (example_paper ''trees'' []) <
   score_formula ''graph'' (example_paper ''graph'' []) \<and>
   score_paper ''graph'' (example_paper ''trees'' []) \<le>
   score_paper ''graph'' (example_paper ''graph'' []) \<and>
   fl (0.25 * fl (real_of_int (year_eff (example_paper ''trees'' []) - 1990) / 40)) = 0"
proof -
  have h: "abstract (example_paper ''graph'' []) = abstract (example_paper ''trees'' []) \<and>
      year (example_paper ''graph'' []) = year (example_paper ''trees'' []) \<and>
      card (tokenize ''graph'' \<inter> tokenize (title (example_paper ''trees'' []))) <
      card (tokenize ''graph'' \<inter> tokenize (title (example_paper ''graph'' [])))"
    by (simp add: short_overlap) (simp add: example_paper_def)
  have y: "case year (example_paper ''trees'' []) of None \<Rightarrow> True | Some y \<Rightarrow> y \<le> 1990"
    by (simp add: example_paper_def)
  have h': "abstract (example_paper ''graph'' []) = abstract (example_paper ''trees'' []) \<and>
      year (example_paper ''graph'' []) = year (example_paper ''trees'' []) \<and>
      card (tokenize ''graph'' \<inter> tokenize (title (example_paper ''trees'' []))) \<le>
      card (tokenize ''graph'' \<inter> tokenize (title (example_paper ''graph'' [])))"
    using h by simp
  show ?thesis
    using score_paper_formula [of "''graph''" "example_paper ''trees'' []" "example_paper ''graph'' []"]
      h h' y by blast
qed

lemma tokenize_Nil: "tokenize [] = {}"
  by code_simp

lemma card_tokenize_long_query: "card (tokenize long_query) = 101"
  by code_simp

lemma long_overlap:
  "card (tokenize long_query \<inter> tokenize (title paper_100)) = 100"
  "card (tokenize long_query \<inter> tokenize (title paper_101)) = 101"
  "card (tokenize long_query \<inter> tokenize (abstract paper_100)) = 0"
  "card (tokenize long_query \<inter> tokenize (abstract paper_101)) = 0"
proof -
  show "card (tokenize long_query \<inter> tokenize (title paper_100)) = 100"
    by code_simp
  have "title paper_101 = long_query"
    by (simp add: paper_101_def long_query_def example_paper_def)
  then show "card (tokenize long_query \<inter> tokenize (title paper_101)) = 101"
    by (simp add: card_tokenize_long_query)
  show "card (tokenize long_query \<inter> tokenize (abstract paper_100)) = 0"
    by (simp add: paper_100_def example_paper_def tokenize_Nil)
  show "card (tokenize long_query \<inter> tokenize (abstract paper_101)) = 0"
    by (simp add: paper_101_def example_paper_def tokenize_Nil)
qed

text \<open>
  A title that shares 101 tokens with the query scores what a title sharing 100 of them
  scores, abstract and year being the same: \<open>1 - e^(-0.3 r)\<close> is rounded to 1 at
  \<open>r = 200\<close> and at \<open>r = 202\<close>.
\<close>

theorem score_paper_saturates:
  "abstract paper_101 = abstract paper_100 \<and> year paper_101 = year paper_100 \<and>
   card (tokenize long_query \<inter> tokenize (title paper_100)) <
   card (tokenize long_query \<inter> tokenize (title paper_101)) \<and>
   score_paper long_query paper_100 = score_paper long_query paper_101"
proof -
  have r: "relevance long_query paper_100 = 200" "relevance long_query paper_101 = 202"
    by (simp_all add: relevance_eq long_overlap)
  have n: "fl (1 - fl (exp (fl (- fl 0.3 * real (relevance long_query paper_100))))) = 1"
    "fl (1 - fl (exp (fl (- fl 0.3 * real (relevance long_query paper_101))))) = 1"
    unfolding r by (rule norm_rel_saturates, simp)+
  have y: "year_eff paper_101 = year_eff paper_100"
    by (simp add: year_eff_def paper_100_def paper_101_def example_paper_def)
  have "score_paper long_query paper_100 = score_paper long_query paper_101"
    unfolding score_paper_def score_paper_with_def Let_def n y ..
  then show ?thesis
    by (simp add: long_overlap) (simp add: paper_100_def paper_101_def example_paper_def)
qed

end
